theory Spec2Isabelle
  imports Main
begin

section \<open>JavaScript strings\<close>

text \<open>
  A JavaScript string is modelled as a \<open>string\<close>; one \<open>char\<close> stands for one code unit.
  The regular-expression classes of the source (\<open>[a-zA-Z0-9]\<close>, \<open>[a-z0-9_-]\<close> with the
  \<open>i\<close> flag) only ever accept ASCII code units, and the case conversions are applied by
  the source either to strings that were sanitised to ASCII beforehand or inside
  \<open>titleCase\<close>; the case maps below change the ASCII letters and leave every other code
  unit as it is. \<open>generateOperationId\<close> is therefore modelled exactly for paths of ASCII
  code units; JavaScript changes some other code units as well (\<open>toUpperCase\<close> turns
  U+00DF into \<open>SS\<close>), which the properties below do not depend on: they hold for
  whatever identifier is generated.
\<close>

definition asciiLower :: string where
  "asciiLower = ''abcdefghijklmnopqrstuvwxyz''"

definition asciiUpper :: string where
  "asciiUpper = ''ABCDEFGHIJKLMNOPQRSTUVWXYZ''"

definition asciiDigits :: string where
  "asciiDigits = ''0123456789''"

definition toUpperChar :: "char \<Rightarrow> char" where
  "toUpperChar c = (case map_of (zip asciiLower asciiUpper) c of Some u \<Rightarrow> u | None \<Rightarrow> c)"

definition toLowerChar :: "char \<Rightarrow> char" where
  "toLowerChar c = (case map_of (zip asciiUpper asciiLower) c of Some l \<Rightarrow> l | None \<Rightarrow> c)"

definition toUpperCase :: "string \<Rightarrow> string" where
  "toUpperCase s = map toUpperChar s"

definition toLowerCase :: "string \<Rightarrow> string" where
  "toLowerCase s = map toLowerChar s"

text \<open>The class \<open>[a-zA-Z0-9]\<close>.\<close>

definition isAlnum :: "char \<Rightarrow> bool" where
  "isAlnum c = (c \<in> set (asciiLower @ asciiUpper @ asciiDigits))"

text \<open>The class \<open>[a-z0-9_-]\<close> under the \<open>i\<close> flag.\<close>

definition isNameChar :: "char \<Rightarrow> bool" where
  "isNameChar c = (c \<in> set (asciiLower @ asciiUpper @ asciiDigits @ ''_-''))"

text \<open>\<open>s.replace(/[^...]/g, '_')\<close>: every code unit outside the class becomes an underscore.\<close>

definition replaceOutside :: "(char \<Rightarrow> bool) \<Rightarrow> string \<Rightarrow> string" where
  "replaceOutside cls s = map (\<lambda>c. if cls c then c else CHR ''_'') s"

text \<open>\<open>s.replace(/\./g, '_')\<close>.\<close>

definition replaceDots :: "string \<Rightarrow> string" where
  "replaceDots s = map (\<lambda>c. if c = CHR ''.'' then CHR ''_'' else c) s"

text \<open>The decimal rendering of a counter inside a template literal.\<close>

fun decimal :: "nat \<Rightarrow> string" where
  "decimal n =
     (if n < 10 then [asciiDigits ! n]
      else decimal (n div 10) @ [asciiDigits ! (n mod 10)])"

declare decimal.simps [simp del]

text \<open>A value is truthy when it is defined and not the empty string.\<close>

definition truthy :: "string option \<Rightarrow> bool" where
  "truthy v = (case v of None \<Rightarrow> False | Some s \<Rightarrow> s \<noteq> [])"

section \<open>JavaScript objects\<close>

text \<open>
  A plain object is modelled by the list of its own enumerable properties in the order of
  \<open>Object.entries\<close>: first the keys that are array indices, in ascending numeric order,
  then the other keys in the order in which they were created. An array index is a
  canonical numeric string (the decimal rendering of its own value) below \<open>2^32 - 1\<close>.
\<close>

definition digitValue :: "char \<Rightarrow> nat" where
  "digitValue c =
     (case map_of (zip asciiDigits [0, 1, 2, 3, 4, 5, 6, 7, 8, 9]) c of
        Some n \<Rightarrow> n
      | None \<Rightarrow> 0)"

definition numericValue :: "string \<Rightarrow> nat" where
  "numericValue k = fold (\<lambda>c n. 10 * n + digitValue c) k 0"

definition arrayIndex :: "string \<Rightarrow> nat option" where
  "arrayIndex k =
     (if k \<noteq> [] \<and> list_all (\<lambda>c. c \<in> set asciiDigits) k
         \<and> decimal (numericValue k) = k \<and> numericValue k < 4294967295
      then Some (numericValue k) else None)"

text \<open>A new array-index key goes before the first key that is not a smaller array index.\<close>

fun insertIndexed :: "nat \<Rightarrow> string \<Rightarrow> 'v \<Rightarrow> (string \<times> 'v) list \<Rightarrow> (string \<times> 'v) list" where
  "insertIndexed n k v [] = [(k, v)]"
| "insertIndexed n k v ((k', v') # ps) =
     (case arrayIndex k' of
        Some n' \<Rightarrow> if n' < n then (k', v') # insertIndexed n k v ps
                   else (k, v) # (k', v') # ps
      | None \<Rightarrow> (k, v) # (k', v') # ps)"

text \<open>An existing key keeps its place and gets the new value.\<close>

fun overwrite :: "string \<Rightarrow> 'v \<Rightarrow> (string \<times> 'v) list \<Rightarrow> (string \<times> 'v) list" where
  "overwrite k v [] = []"
| "overwrite k v ((k', v') # ps) =
     (if k' = k then (k, v) # ps else (k', v') # overwrite k v ps)"

text \<open>
  \<open>obj[k] = v\<close> on an object created by \<open>{}\<close>. The key \<open>__proto__\<close> is the accessor
  inherited from \<open>Object.prototype\<close>: the assignment sets the prototype (or does nothing,
  for a value that is neither an object nor \<open>null\<close>) and creates no own property.
\<close>

definition assign :: "string \<Rightarrow> 'v \<Rightarrow> (string \<times> 'v) list \<Rightarrow> (string \<times> 'v) list" where
  "assign k v ps =
     (if k = ''__proto__'' then ps
      else if k \<in> fst ` set ps then overwrite k v ps
      else (case arrayIndex k of
              None \<Rightarrow> ps @ [(k, v)]
            | Some n \<Rightarrow> insertIndexed n k v ps))"

section \<open>Environment variable names (utils/security.ts)\<close>

datatype env_kind =
    API_KEY | BEARER_TOKEN | BASIC_USERNAME | BASIC_PASSWORD
  | OAUTH_CLIENT_ID | OAUTH_CLIENT_SECRET | OAUTH_TOKEN | OAUTH_SCOPES | OPENID_TOKEN

fun kindName :: "env_kind \<Rightarrow> string" where
  "kindName API_KEY = ''API_KEY''"
| "kindName BEARER_TOKEN = ''BEARER_TOKEN''"
| "kindName BASIC_USERNAME = ''BASIC_USERNAME''"
| "kindName BASIC_PASSWORD = ''BASIC_PASSWORD''"
| "kindName OAUTH_CLIENT_ID = ''OAUTH_CLIENT_ID''"
| "kindName OAUTH_CLIENT_SECRET = ''OAUTH_CLIENT_SECRET''"
| "kindName OAUTH_TOKEN = ''OAUTH_TOKEN''"
| "kindName OAUTH_SCOPES = ''OAUTH_SCOPES''"
| "kindName OPENID_TOKEN = ''OPENID_TOKEN''"

definition getEnvVarName :: "string \<Rightarrow> env_kind \<Rightarrow> string" where
  "getEnvVarName schemeName type =
     (let sanitizedName = toUpperCase (replaceOutside isAlnum schemeName)
      in kindName type @ ''_'' @ sanitizedName)"

text \<open>
  The emitted \<open>executeApiTool\<close> computes its variable names when it runs, from the
  scheme name of the requirement it is looking at:
  \<open>`API_KEY_${schemeName.replace(/[^a-zA-Z0-9]/g, '_').toUpperCase()}`\<close>.
\<close>

definition runtimeEnvVar :: "env_kind \<Rightarrow> string \<Rightarrow> string" where
  "runtimeEnvVar type schemeName =
     kindName type @ ''_'' @ toUpperCase (replaceOutside isAlnum schemeName)"

type_synonym process_env = "string \<rightharpoonup> string"

section \<open>Security resolution (the emitted executeApiTool)\<close>

record oauth_flow =
  tokenUrl :: "string option"

record oauth_flows =
  clientCredentials :: "oauth_flow option"
  password :: "oauth_flow option"

record security_scheme =
  scheme_type :: string
  scheme_scheme :: "string option"
  scheme_flows :: "oauth_flows option"

text \<open>One requirement: the entries of a mapping from scheme name to requested scopes.\<close>

type_synonym security_requirement = "(string \<times> string list) list"

text \<open>\<open>scheme.flows?.clientCredentials || scheme.flows?.password\<close>\<close>

definition hasSupportedFlow :: "security_scheme \<Rightarrow> bool" where
  "hasSupportedFlow scheme =
     (case scheme_flows scheme of
        None \<Rightarrow> False
      | Some fl \<Rightarrow>
          (case clientCredentials fl of
             Some f \<Rightarrow> True
           | None \<Rightarrow> (case password fl of Some f \<Rightarrow> True | None \<Rightarrow> False)))"

text \<open>The callback handed to \<open>every\<close>: is this scheme usable with the present environment?\<close>

definition schemeAvailable ::
  "(string \<rightharpoonup> security_scheme) \<Rightarrow> process_env \<Rightarrow> string \<Rightarrow> bool" where
  "schemeAvailable allSecuritySchemes env schemeName =
     (case allSecuritySchemes schemeName of
        None \<Rightarrow> False
      | Some scheme \<Rightarrow>
          if scheme_type scheme = ''apiKey'' then truthy (env (runtimeEnvVar API_KEY schemeName))
          else if scheme_type scheme = ''http''
                  \<and> map_option toLowerCase (scheme_scheme scheme) = Some ''bearer''
            then truthy (env (runtimeEnvVar BEARER_TOKEN schemeName))
          else if scheme_type scheme = ''http''
                  \<and> map_option toLowerCase (scheme_scheme scheme) = Some ''basic''
            then truthy (env (runtimeEnvVar BASIC_USERNAME schemeName))
                 \<and> truthy (env (runtimeEnvVar BASIC_PASSWORD schemeName))
          else if scheme_type scheme = ''oauth2''
            then (if truthy (env (runtimeEnvVar OAUTH_TOKEN schemeName)) then True
                  else if truthy (env (runtimeEnvVar OAUTH_CLIENT_ID schemeName))
                          \<and> truthy (env (runtimeEnvVar OAUTH_CLIENT_SECRET schemeName))
                          \<and> hasSupportedFlow scheme
                    then True
                  else False)
          else if scheme_type scheme = ''openIdConnect''
            then truthy (env (runtimeEnvVar OPENID_TOKEN schemeName))
          else False)"

text \<open>\<open>Object.entries(req).every(...)\<close>\<close>

definition requirementSatisfied ::
  "(string \<rightharpoonup> security_scheme) \<Rightarrow> process_env \<Rightarrow> security_requirement \<Rightarrow> bool" where
  "requirementSatisfied allSecuritySchemes env req =
     list_all (\<lambda>(schemeName, scopesArray). schemeAvailable allSecuritySchemes env schemeName) req"

text \<open>\<open>definition.securityRequirements?.find(...)\<close>; \<open>None\<close> is JavaScript's undefined.\<close>

definition appliedSecurity ::
  "(string \<rightharpoonup> security_scheme) \<Rightarrow> process_env \<Rightarrow> security_requirement list
     \<Rightarrow> security_requirement option" where
  "appliedSecurity allSecuritySchemes env securityRequirements =
     find (requirementSatisfied allSecuritySchemes env) securityRequirements"

section \<open>OAuth2 token acquisition (the emitted acquireOAuth2Token)\<close>

text \<open>
  \<open>generateOAuth2TokenAcquisitionCode\<close> builds the text of \<open>acquireOAuth2Token\<close> with a
  template literal. The three variable names are interpolated while the generator runs,
  by \<open>getEnvVarName('schemeName', ...)\<close> applied to the string literal
  \<open>'schemeName'\<close>; the emitted routine then holds them as fixed names.
\<close>

definition emittedClientIdVar :: string where
  "emittedClientIdVar = getEnvVarName ''schemeName'' OAUTH_CLIENT_ID"

definition emittedClientSecretVar :: string where
  "emittedClientSecretVar = getEnvVarName ''schemeName'' OAUTH_CLIENT_SECRET"

definition emittedScopesVar :: string where
  "emittedScopesVar = getEnvVarName ''schemeName'' OAUTH_SCOPES"

record token_cache_entry =
  token :: string
  expiresAt :: int

type_synonym token_cache = "string \<rightharpoonup> token_cache_entry"

text \<open>The POST sent to the token endpoint.\<close>

record token_request =
  req_url :: string
  req_clientId :: string
  req_clientSecret :: string
  req_scope :: "string option"

text \<open>
  What the HTTP client does with the request: it throws, or it answers with a body whose
  \<open>access_token\<close> and \<open>expires_in\<close> (seconds) may be absent.
\<close>

datatype axios_outcome =
    Throws
  | Responds (access_token: "string option") (expires_in: "int option")

text \<open>The routine's result, the cache it leaves behind, and the requests it sent.\<close>

record acquire_result =
  acquired :: "string option"
  cache_after :: token_cache
  requests :: "token_request list"

text \<open>
  \<open>now\<close> is the value of \<open>Date.now()\<close> (milliseconds) read by this call. Every
  \<open>return null\<close> of the source, and the \<open>catch\<close> branch, is \<open>acquired = None\<close>.
\<close>

text \<open>
  The token endpoint: the client-credentials flow's \<open>tokenUrl\<close> if truthy, else the
  password flow's, else none (no supported flow).
\<close>

definition determineTokenUrl :: "security_scheme \<Rightarrow> string option" where
  "determineTokenUrl scheme =
     (let ccUrl = (case scheme_flows scheme of
                     None \<Rightarrow> None
                   | Some fl \<Rightarrow> (case clientCredentials fl of None \<Rightarrow> None | Some f \<Rightarrow> tokenUrl f));
          pwUrl = (case scheme_flows scheme of
                     None \<Rightarrow> None
                   | Some fl \<Rightarrow> (case password fl of None \<Rightarrow> None | Some f \<Rightarrow> tokenUrl f))
      in if truthy ccUrl then ccUrl else if truthy pwUrl then pwUrl else None)"

text \<open>\<open>cachedToken && cachedToken.expiresAt > now\<close>\<close>

definition cacheHit :: "token_cache \<Rightarrow> string \<Rightarrow> int \<Rightarrow> string option" where
  "cacheHit cache cacheKey now =
     (case cache cacheKey of
        None \<Rightarrow> None
      | Some cachedToken \<Rightarrow> if expiresAt cachedToken > now then Some (token cachedToken) else None)"

definition acquireOAuth2Token ::
  "process_env \<Rightarrow> (token_request \<Rightarrow> axios_outcome) \<Rightarrow> int \<Rightarrow> token_cache
     \<Rightarrow> string \<Rightarrow> security_scheme \<Rightarrow> acquire_result" where
  "acquireOAuth2Token env axios now cache schemeName scheme =
     (case (env emittedClientIdVar, env emittedClientSecretVar) of
        (Some clientId, Some clientSecret) \<Rightarrow>
          if clientId = [] \<or> clientSecret = []
          then \<lparr>acquired = None, cache_after = cache, requests = []\<rparr>
          else
           (let scopes = env emittedScopesVar;
                cacheKey = schemeName @ ''_'' @ clientId
            in case cacheHit cache cacheKey now of
                 Some t \<Rightarrow> \<lparr>acquired = Some t, cache_after = cache, requests = []\<rparr>
               | None \<Rightarrow>
                  (case determineTokenUrl scheme of
                     None \<Rightarrow> \<lparr>acquired = None, cache_after = cache, requests = []\<rparr>
                   | Some url \<Rightarrow>
                      (let request = \<lparr>req_url = url, req_clientId = clientId,
                                       req_clientSecret = clientSecret,
                                       req_scope = (if truthy scopes then scopes else None)\<rparr>
                       in case axios request of
                            Throws \<Rightarrow>
                              \<lparr>acquired = None, cache_after = cache, requests = [request]\<rparr>
                          | Responds None expires \<Rightarrow>
                              \<lparr>acquired = None, cache_after = cache, requests = [request]\<rparr>
                          | Responds (Some tok) expires \<Rightarrow>
                              if tok = []
                              then \<lparr>acquired = None, cache_after = cache, requests = [request]\<rparr>
                              else
                               (let expiresIn = (case expires of
                                                   None \<Rightarrow> 3600
                                                 | Some n \<Rightarrow> if n = 0 then 3600 else n)
                                in \<lparr>acquired = Some tok,
                                    cache_after = cache(cacheKey \<mapsto>
                                      \<lparr>token = tok,
                                       expiresAt = now + (expiresIn * 1000) - 60000\<rparr>),
                                    requests = [request]\<rparr>))))
      | _ \<Rightarrow> \<lparr>acquired = None, cache_after = cache, requests = []\<rparr>)"

section \<open>Schema translation (parser/extract-tools.ts)\<close>

text \<open>
  The document handed to the extractor is an object graph: after dereferencing, a schema
  that refers to itself is an object that contains itself. Schema objects therefore live
  in a store and are named by their address; values found where a schema is expected are
  an object, a boolean, or anything else.
\<close>

type_synonym addr = nat

datatype schema_val = SObj addr | SBool bool | SOther

text \<open>The \<open>type\<close> member: absent, one name, or an array of names.\<close>

datatype type_field = TUndefined | TString string | TArray "string list"

text \<open>
  The members the translator looks at, and \<open>s_rest\<close> for every other own member (key
  and opaque value), which the spread copies. \<open>s_properties\<close> lists the entries of
  \<open>properties\<close> in the order of \<open>Object.entries\<close>.
\<close>

record schema_obj =
  s_ref :: "string option"
  s_type :: type_field
  s_nullable :: bool
  s_properties :: "(string \<times> schema_val) list option"
  s_items :: "schema_val option"
  s_description :: "string option"
  s_required :: "string list option"
  s_rest :: "(string \<times> string) list"

type_synonym heap = "addr \<Rightarrow> schema_obj"

text \<open>
  The result. \<open>JShared\<close> and \<open>JOther\<close> are members the shallow copy took over from the
  source object without translating them.
\<close>

datatype json_schema =
    JBoolean bool
  | JShared addr
  | JOther
  | JObject (j_type: type_field)
            (j_properties: "(string \<times> json_schema) list option")
            (j_items: "json_schema option")
            (j_description: "string option")
            (j_required: "string list option")
            (j_rest: "(string \<times> string) list")

fun shared :: "schema_val \<Rightarrow> json_schema" where
  "shared (SObj a) = JShared a"
| "shared (SBool b) = JBoolean b"
| "shared SOther = JOther"

text \<open>\<open>RangeError: Maximum call stack size exceeded\<close>\<close>

datatype error = RangeError

text \<open>\<open>{ type: 'object' }\<close>\<close>

definition unconstrainedObject :: json_schema where
  "unconstrainedObject = JObject (TString ''object'') None None None None []"

text \<open>The members removed with \<open>delete\<close> (besides \<open>nullable\<close>).\<close>

definition openApiOnlyKeys :: "string list" where
  "openApiOnlyKeys =
     [''example'', ''xml'', ''externalDocs'', ''deprecated'', ''readOnly'', ''writeOnly'']"

text \<open>Lines 183-193: \<open>null\<close> is added to the type of a nullable schema.\<close>

definition foldNullable :: "bool \<Rightarrow> type_field \<Rightarrow> type_field" where
  "foldNullable nullable t =
     (if nullable then
        (case t of
           TArray ts \<Rightarrow> if ''null'' \<in> set ts then TArray ts else TArray (ts @ [''null''])
         | TString s \<Rightarrow> TArray [s, ''null'']
         | TUndefined \<Rightarrow> TString ''null'')
      else t)"

text \<open>
  Lines 197-206: the loop over \<open>Object.entries(jsonSchema.properties)\<close>, filling
  \<open>mappedProps\<close>; \<open>f\<close> is the recursive call. The first call that throws ends the loop.
\<close>

fun mapProperties ::
  "(addr \<Rightarrow> error + json_schema) \<Rightarrow> (string \<times> schema_val) list
     \<Rightarrow> (string \<times> json_schema) list \<Rightarrow> error + (string \<times> json_schema) list" where
  "mapProperties f [] mappedProps = Inr mappedProps"
| "mapProperties f ((key, SObj a) # ps) mappedProps =
     (case f a of
        Inl e \<Rightarrow> Inl e
      | Inr js \<Rightarrow> mapProperties f ps (assign key js mappedProps))"
| "mapProperties f ((key, SBool b) # ps) mappedProps =
     mapProperties f ps (assign key (JBoolean b) mappedProps)"
| "mapProperties f ((key, SOther) # ps) mappedProps = mapProperties f ps mappedProps"

text \<open>
  The first argument is the number of stack frames left: a call that finds none throws
  \<open>RangeError\<close>, each nested call has one frame less.
\<close>

fun mapOpenApiSchemaToJsonSchema :: "nat \<Rightarrow> heap \<Rightarrow> addr \<Rightarrow> error + json_schema" where
  "mapOpenApiSchemaToJsonSchema 0 h a = Inl RangeError"
| "mapOpenApiSchemaToJsonSchema (Suc d) h a =
     (let schema = h a in
      if s_ref schema \<noteq> None then Inr unconstrainedObject
      else
       (let type1 = (if s_type schema = TString ''integer'' then TString ''number''
                     else s_type schema);
            rest1 = filter (\<lambda>(k, v). k \<notin> set openApiOnlyKeys) (s_rest schema);
            type2 = foldNullable (s_nullable schema) type1
        in case (if type2 = TString ''object''
                 then (case s_properties schema of
                         None \<Rightarrow> Inr None
                       | Some ps \<Rightarrow>
                           (case mapProperties (mapOpenApiSchemaToJsonSchema d h) ps [] of
                              Inl e \<Rightarrow> Inl e
                            | Inr mappedProps \<Rightarrow> Inr (Some mappedProps)))
                 else Inr (map_option (map (\<lambda>(k, v). (k, shared v))) (s_properties schema))) of
             Inl e \<Rightarrow> Inl e
           | Inr props \<Rightarrow>
              (case (if type2 = TString ''array''
                     then (case s_items schema of
                             Some (SObj i) \<Rightarrow>
                               (case mapOpenApiSchemaToJsonSchema d h i of
                                  Inl e \<Rightarrow> Inl e
                                | Inr js \<Rightarrow> Inr (Some js))
                           | other \<Rightarrow> Inr (map_option shared other))
                     else Inr (map_option shared (s_items schema))) of
                 Inl e \<Rightarrow> Inl e
               | Inr its \<Rightarrow>
                   Inr (JObject type2 props its (s_description schema) (s_required schema)
                          rest1))))"

section \<open>The OpenAPI document\<close>

record parameter =
  p_name :: string
  p_in :: string
  p_required :: bool
  p_description :: "string option"
  p_schema :: "addr option"

record media_type =
  m_schema :: "addr option"

text \<open>\<open>rb_content\<close> lists the media types in the order of \<open>Object.entries\<close>.\<close>

record request_body =
  rb_content :: "(string \<times> media_type) list option"
  rb_description :: "string option"
  rb_required :: bool

text \<open>The \<open>security\<close> member of an operation: absent, \<open>null\<close>, or a list.\<close>

datatype security_decl =
    SecurityUndefined
  | SecurityNull
  | SecurityList "security_requirement list"

record operation =
  o_operationId :: "string option"
  o_description :: "string option"
  o_summary :: "string option"
  o_parameters :: "parameter list option"
  o_requestBody :: "request_body option"
  o_security :: security_decl

text \<open>
  \<open>OpenAPIV3.HttpMethods\<close> (declared by the package \<open>openapi-types\<close>), in the order
  of the enumeration.
\<close>

datatype http_method = GET | PUT | POST | DELETE | OPTIONS | HEAD | PATCH | TRACE

fun methodString :: "http_method \<Rightarrow> string" where
  "methodString GET = ''get''"
| "methodString PUT = ''put''"
| "methodString POST = ''post''"
| "methodString DELETE = ''delete''"
| "methodString OPTIONS = ''options''"
| "methodString HEAD = ''head''"
| "methodString PATCH = ''patch''"
| "methodString TRACE = ''trace''"

definition HttpMethods :: "http_method list" where
  "HttpMethods = [GET, PUT, POST, DELETE, OPTIONS, HEAD, PATCH, TRACE]"

type_synonym path_item = "http_method \<Rightarrow> operation option"

record document =
  api_security :: "security_requirement list option"
  api_paths :: "(string \<times> path_item option) list option"

section \<open>Operation identifiers (utils/code-gen.ts)\<close>

definition isSeparator :: "char \<Rightarrow> bool" where
  "isSeparator c = (c \<in> set ''-_/'')"

text \<open>The code units that \<open>.\<close> does not match.\<close>

definition isLineTerminator :: "char \<Rightarrow> bool" where
  "isLineTerminator c = (c = CHR 0x0A \<or> c = CHR 0x0D)"

text \<open>\<open>.replace(/[-_\/](.)/g, (_, char) => char.toUpperCase())\<close>\<close>

fun upperAfterSeparator :: "string \<Rightarrow> string" where
  "upperAfterSeparator (a # b # cs) =
     (if isSeparator a \<and> \<not> isLineTerminator b then toUpperChar b # upperAfterSeparator cs
      else a # upperAfterSeparator (b # cs))"
| "upperAfterSeparator cs = cs"

text \<open>\<open>.replace(/^{/, '')\<close>\<close>

definition dropLeadingBrace :: "string \<Rightarrow> string" where
  "dropLeadingBrace s = (case s of c # r \<Rightarrow> if c = CHR ''{'' then r else s | [] \<Rightarrow> [])"

text \<open>\<open>.replace(/}$/, '')\<close>\<close>

definition dropTrailingBrace :: "string \<Rightarrow> string" where
  "dropTrailingBrace s = (if s \<noteq> [] \<and> last s = CHR ''}'' then butlast s else s)"

text \<open>\<open>.replace(/^./, (char) => char.toUpperCase())\<close>\<close>

definition capitalizeFirst :: "string \<Rightarrow> string" where
  "capitalizeFirst s =
     (case s of c # r \<Rightarrow> if isLineTerminator c then s else toUpperChar c # r | [] \<Rightarrow> [])"

definition titleCase :: "string \<Rightarrow> string" where
  "titleCase str =
     capitalizeFirst (dropTrailingBrace (dropLeadingBrace (upperAfterSeparator (toLowerCase str))))"

text \<open>\<open>path.split('/')\<close>\<close>

fun splitOn :: "char \<Rightarrow> string \<Rightarrow> string list" where
  "splitOn sep [] = [[]]"
| "splitOn sep (c # cs) =
     (if c = sep then [] # splitOn sep cs
      else (case splitOn sep cs of p # ps \<Rightarrow> (c # p) # ps | [] \<Rightarrow> [[c]]))"

definition isPlaceholder :: "string \<Rightarrow> bool" where
  "isPlaceholder part = (part \<noteq> [] \<and> hd part = CHR ''{'' \<and> last part = CHR ''}'')"

text \<open>The \<open>forEach\<close> over the path segments; the last segment is the one with no rest.\<close>

fun appendParts :: "string list \<Rightarrow> string \<Rightarrow> string" where
  "appendParts [] nm = nm"
| "appendParts (part # rest) nm =
     (if isPlaceholder part
      then (if rest = [] then appendParts rest (nm @ ''By'' @ titleCase part)
            else appendParts rest nm)
      else appendParts rest (nm @ titleCase part))"

definition generateOperationId :: "string \<Rightarrow> string \<Rightarrow> string" where
  "generateOperationId meth path =
     (let parts = filter (\<lambda>p. p \<noteq> []) (splitOn CHR ''/'' path);
          name1 = appendParts parts (toLowerCase meth);
          name2 = (if name1 = toLowerCase meth then name1 @ ''Root'' else name1)
      in case name2 of c # r \<Rightarrow> toUpperChar c # r | [] \<Rightarrow> [])"

section \<open>Input schema of an operation (parser/extract-tools.ts)\<close>

text \<open>\<open>a || b\<close> on optional strings.\<close>

definition orElse :: "string option \<Rightarrow> string option \<Rightarrow> string option" where
  "orElse a b = (if truthy a then a else b)"

text \<open>
  \<open>if (typeof s === 'object') s.description = ...\<close>: \<open>upd\<close> computes the new
  description from the one the schema has.
\<close>

fun describe :: "(string option \<Rightarrow> string option) \<Rightarrow> json_schema \<Rightarrow> json_schema" where
  "describe upd (JObject t ps it dsc rq rs) = JObject t ps it (upd dsc) rq rs"
| "describe upd js = js"

text \<open>
  Lines 96-106: the \<open>forEach\<close> over the parameters, threading \<open>properties\<close> and
  \<open>required\<close>.
\<close>

fun processParameters ::
  "nat \<Rightarrow> heap \<Rightarrow> parameter list \<Rightarrow> (string \<times> json_schema) list \<times> string list
     \<Rightarrow> error + ((string \<times> json_schema) list \<times> string list)" where
  "processParameters d h [] acc = Inr acc"
| "processParameters d h (param # rest) (properties, required) =
     (case p_schema param of
        None \<Rightarrow> processParameters d h rest (properties, required)
      | Some schema \<Rightarrow>
          if p_name param = [] then processParameters d h rest (properties, required)
          else
           (case mapOpenApiSchemaToJsonSchema d h schema of
              Inl e \<Rightarrow> Inl e
            | Inr paramSchema \<Rightarrow>
                processParameters d h rest
                  (assign (p_name param)
                     (describe (\<lambda>dsc. orElse (p_description param) dsc) paramSchema)
                     properties,
                   if p_required param then required @ [p_name param] else required)))"

record input_details =
  d_inputSchema :: json_schema
  d_parameters :: "parameter list"
  d_requestBodyContentType :: "string option"

text \<open>
  Lines 111-139: the \<open>requestBody\<close> property and the content type, if the body has a
  media type at all: the schema of \<open>application/json\<close> translated, else a string
  property for the first declared media type.
\<close>

definition requestBodyProperty ::
  "nat \<Rightarrow> heap \<Rightarrow> request_body \<Rightarrow> error + (json_schema \<times> string) option" where
  "requestBodyProperty d h opRequestBody =
     (let content = (case rb_content opRequestBody of Some c \<Rightarrow> c | None \<Rightarrow> []);
          jsonSchema = (case map_of content ''application/json'' of
                          None \<Rightarrow> None
                        | Some mt \<Rightarrow> m_schema mt)
      in case jsonSchema of
           Some schema \<Rightarrow>
             (case mapOpenApiSchemaToJsonSchema d h schema of
                Inl e \<Rightarrow> Inl e
              | Inr bodySchema \<Rightarrow>
                  Inr (Some (describe
                               (\<lambda>dsc. orElse (orElse (rb_description opRequestBody) dsc)
                                        (Some ''The JSON request body.''))
                               bodySchema,
                             ''application/json'')))
         | None \<Rightarrow>
             (case content of
                [] \<Rightarrow> Inr None
              | (contentType, mt) # others \<Rightarrow>
                  Inr (Some (JObject (TString ''string'') None None
                               (orElse (rb_description opRequestBody)
                                  (Some (''Request body (content type: '' @ contentType
                                          @ '')'')))
                               None [],
                             contentType))))"

text \<open>Lines 142-146: \<open>{ type: 'object', properties, ...(required.length > 0 && { required }) }\<close>\<close>

definition objectSchema :: "(string \<times> json_schema) list \<Rightarrow> string list \<Rightarrow> json_schema" where
  "objectSchema properties required =
     JObject (TString ''object'') (Some properties) None None
       (if required = [] then None else Some required) []"

definition generateInputSchemaAndDetails ::
  "nat \<Rightarrow> heap \<Rightarrow> operation \<Rightarrow> error + input_details" where
  "generateInputSchemaAndDetails d h op =
     (let allParameters = (case o_parameters op of Some ps \<Rightarrow> ps | None \<Rightarrow> [])
      in case processParameters d h allParameters ([], []) of
           Inl e \<Rightarrow> Inl e
         | Inr (properties, required) \<Rightarrow>
            (case o_requestBody op of
               None \<Rightarrow>
                 Inr \<lparr>d_inputSchema = objectSchema properties required,
                      d_parameters = allParameters,
                      d_requestBodyContentType = None\<rparr>
             | Some opRequestBody \<Rightarrow>
                (case requestBodyProperty d h opRequestBody of
                   Inl e \<Rightarrow> Inl e
                 | Inr None \<Rightarrow>
                     Inr \<lparr>d_inputSchema = objectSchema properties required,
                          d_parameters = allParameters,
                          d_requestBodyContentType = None\<rparr>
                 | Inr (Some (bodySchema, contentType)) \<Rightarrow>
                     Inr \<lparr>d_inputSchema =
                            objectSchema (assign ''requestBody'' bodySchema properties)
                              (if rb_required opRequestBody then required @ [''requestBody'']
                               else required),
                          d_parameters = allParameters,
                          d_requestBodyContentType = Some contentType\<rparr>)))"

section \<open>Tool extraction (parser/extract-tools.ts)\<close>

text \<open>\<open>McpToolDefinition\<close>; its member \<open>method\<close> is the field \<open>httpMethod\<close>.\<close>

record tool =
  name :: string
  description :: string
  inputSchema :: json_schema
  httpMethod :: string
  pathTemplate :: string
  parameters :: "parameter list"
  executionParameters :: "(string \<times> string) list"
  requestBodyContentType :: "string option"
  securityRequirements :: "security_requirement list"
  operationId :: string

text \<open>Line 34: the name is restricted to \<open>a-z\<close>, \<open>0-9\<close>, \<open>_\<close> and \<open>-\<close>.\<close>

definition sanitizeName :: "string \<Rightarrow> string" where
  "sanitizeName baseName = toLowerCase (replaceOutside isNameChar (replaceDots baseName))"

text \<open>
  Lines 36-40: the \<open>while\<close> loop; \<open>usedNames\<close> is the set in insertion order. The loop
  state is the counter and the candidate name.
\<close>

function whileUsed :: "string \<Rightarrow> string list \<Rightarrow> nat \<Rightarrow> string \<Rightarrow> string" where
  "whileUsed baseName usedNames counter finalToolName =
     (if finalToolName \<in> set usedNames
      then whileUsed baseName usedNames (counter + 1) (baseName @ ''_'' @ decimal counter)
      else finalToolName)"
  by pat_completeness auto

text \<open>\<open>usedNames.add(finalToolName)\<close>\<close>

definition add :: "string \<Rightarrow> string list \<Rightarrow> string list" where
  "add x usedNames = (if x \<in> set usedNames then usedNames else usedNames @ [x])"

text \<open>Lines 54-56.\<close>

definition operationSecurity ::
  "security_requirement list \<Rightarrow> security_decl \<Rightarrow> security_requirement list" where
  "operationSecurity globalSecurity sec =
     (case sec of
        SecurityNull \<Rightarrow> globalSecurity
      | SecurityList l \<Rightarrow> l
      | SecurityUndefined \<Rightarrow> globalSecurity)"

text \<open>Line 30: the declared identifier if truthy, else the generated one.\<close>

definition rawBaseName :: "http_method \<Rightarrow> string \<Rightarrow> operation \<Rightarrow> string" where
  "rawBaseName m path op =
     (case o_operationId op of
        Some i \<Rightarrow> if i \<noteq> [] then i else generateOperationId (methodString m) path
      | None \<Rightarrow> generateOperationId (methodString m) path)"

text \<open>
  The body of the inner loop for one declared operation; the state is \<open>tools\<close> and
  \<open>usedNames\<close>.
\<close>

definition processOperation ::
  "nat \<Rightarrow> heap \<Rightarrow> security_requirement list \<Rightarrow> string \<Rightarrow> http_method \<Rightarrow> operation
     \<Rightarrow> tool list \<times> string list \<Rightarrow> error + (tool list \<times> string list)" where
  "processOperation d h globalSecurity path m op st =
     (case st of (tools, usedNames) \<Rightarrow>
        if rawBaseName m path op = [] then Inr (tools, usedNames)
        else
         (let baseName = sanitizeName (rawBaseName m path op);
              finalToolName = whileUsed baseName usedNames 1 baseName;
              usedNames' = add finalToolName usedNames;
              dsc = (case orElse (o_description op) (o_summary op) of
                       Some s \<Rightarrow> if s \<noteq> [] then s
                                 else ''Executes '' @ toUpperCase (methodString m) @ '' '' @ path
                     | None \<Rightarrow> ''Executes '' @ toUpperCase (methodString m) @ '' '' @ path)
          in case generateInputSchemaAndDetails d h op of
               Inl e \<Rightarrow> Inl e
             | Inr details \<Rightarrow>
                 Inr (tools @
                        [\<lparr>name = finalToolName,
                          description = dsc,
                          inputSchema = d_inputSchema details,
                          httpMethod = methodString m,
                          pathTemplate = path,
                          parameters = d_parameters details,
                          executionParameters =
                            map (\<lambda>p. (p_name p, p_in p)) (d_parameters details),
                          requestBodyContentType = d_requestBodyContentType details,
                          securityRequirements = operationSecurity globalSecurity (o_security op),
                          operationId = baseName\<rparr>],
                      usedNames')))"

text \<open>Lines 25-71: the loop over the HTTP methods of one path item.\<close>

fun methodLoop ::
  "nat \<Rightarrow> heap \<Rightarrow> security_requirement list \<Rightarrow> string \<Rightarrow> path_item \<Rightarrow> http_method list
     \<Rightarrow> tool list \<times> string list \<Rightarrow> error + (tool list \<times> string list)" where
  "methodLoop d h globalSecurity path pathItem [] st = Inr st"
| "methodLoop d h globalSecurity path pathItem (m # ms) st =
     (case pathItem m of
        None \<Rightarrow> methodLoop d h globalSecurity path pathItem ms st
      | Some op \<Rightarrow>
          (case processOperation d h globalSecurity path m op st of
             Inl e \<Rightarrow> Inl e
           | Inr st' \<Rightarrow> methodLoop d h globalSecurity path pathItem ms st'))"

text \<open>Lines 22-72: the loop over \<open>Object.entries(api.paths)\<close>.\<close>

fun pathLoop ::
  "nat \<Rightarrow> heap \<Rightarrow> security_requirement list \<Rightarrow> (string \<times> path_item option) list
     \<Rightarrow> tool list \<times> string list \<Rightarrow> error + (tool list \<times> string list)" where
  "pathLoop d h globalSecurity [] st = Inr st"
| "pathLoop d h globalSecurity ((path, None) # rest) st = pathLoop d h globalSecurity rest st"
| "pathLoop d h globalSecurity ((path, Some pathItem) # rest) st =
     (case methodLoop d h globalSecurity path pathItem HttpMethods st of
        Inl e \<Rightarrow> Inl e
      | Inr st' \<Rightarrow> pathLoop d h globalSecurity rest st')"

text \<open>
  \<open>d\<close> is the number of stack frames left for the schema translation, \<open>h\<close> the store
  holding the document's schema objects.
\<close>

definition extractToolsFromApi :: "nat \<Rightarrow> heap \<Rightarrow> document \<Rightarrow> error + tool list" where
  "extractToolsFromApi d h api =
     (let globalSecurity = (case api_security api of Some s \<Rightarrow> s | None \<Rightarrow> [])
      in case api_paths api of
           None \<Rightarrow> Inr []
         | Some paths \<Rightarrow>
             (case pathLoop d h globalSecurity paths ([], []) of
                Inl e \<Rightarrow> Inl e
              | Inr (tools, usedNames) \<Rightarrow> Inr tools))"

section \<open>Notions used to state the properties\<close>

text \<open>
  The operations a document declares, in the order in which the two loops of
  \<open>extractToolsFromApi\<close> meet them: path by path, and within a path item in the order
  of \<open>HttpMethods\<close>.
\<close>

definition operationsOfItem ::
  "string \<Rightarrow> path_item \<Rightarrow> http_method list \<Rightarrow> (string \<times> http_method \<times> operation) list" where
  "operationsOfItem path pathItem ms =
     concat (map (\<lambda>m. case pathItem m of None \<Rightarrow> [] | Some op \<Rightarrow> [(path, m, op)]) ms)"

definition operationsOfPaths ::
  "(string \<times> path_item option) list \<Rightarrow> (string \<times> http_method \<times> operation) list" where
  "operationsOfPaths paths =
     concat (map (\<lambda>(path, item). case item of
                                    None \<Rightarrow> []
                                  | Some pathItem \<Rightarrow> operationsOfItem path pathItem HttpMethods)
                 paths)"

definition declaredOperations :: "document \<Rightarrow> (string \<times> http_method \<times> operation) list" where
  "declaredOperations api =
     (case api_paths api of None \<Rightarrow> [] | Some paths \<Rightarrow> operationsOfPaths paths)"

text \<open>The document's global security declaration (line 18).\<close>

definition globalSecurity :: "document \<Rightarrow> security_requirement list" where
  "globalSecurity api = (case api_security api of Some s \<Rightarrow> s | None \<Rightarrow> [])"

text \<open>
  A tool carries the members that the loop body computes from one operation alone
  (everything but the name).
\<close>

definition producedFrom ::
  "nat \<Rightarrow> heap \<Rightarrow> security_requirement list \<Rightarrow> string \<times> http_method \<times> operation
     \<Rightarrow> tool \<Rightarrow> bool" where
  "producedFrom d h gs pmo t =
     (case pmo of (path, m, op) \<Rightarrow>
        operationId t = sanitizeName (rawBaseName m path op)
        \<and> pathTemplate t = path
        \<and> httpMethod t = methodString m
        \<and> securityRequirements t = operationSecurity gs (o_security op)
        \<and> executionParameters t = map (\<lambda>p. (p_name p, p_in p)) (parameters t)
        \<and> generateInputSchemaAndDetails d h op
            = Inr \<lparr>d_inputSchema = inputSchema t, d_parameters = parameters t,
                   d_requestBodyContentType = requestBodyContentType t\<rparr>)"

text \<open>
  Each tool of a run got the name the loop of lines 36-40 chooses against the names of
  the tools before it.
\<close>

fun allocated :: "string list \<Rightarrow> tool list \<Rightarrow> bool" where
  "allocated used [] = True"
| "allocated used (t # ts) =
     (name t = whileUsed (operationId t) used 1 (operationId t)
      \<and> allocated (used @ [name t]) ts)"

text \<open>
  The sanitised name in the words of the specification: each code unit is lower-cased,
  and a dot or a code unit outside \<open>[a-z0-9_-]\<close> becomes an underscore.
\<close>

definition sanitizedChar :: "char \<Rightarrow> char" where
  "sanitizedChar c =
     (if c = CHR ''.'' \<or> toLowerChar c \<notin> set (asciiLower @ asciiDigits @ ''_-'')
      then CHR ''_'' else toLowerChar c)"

section \<open>Example documents\<close>

text \<open>
  A schema whose property \<open>self\<close> is the schema itself, and a pair of schemas that
  reach each other through \<open>properties\<close> and \<open>items\<close>; a document whose one
  operation takes the first as its JSON body.
\<close>

definition selfReferential :: heap where
  "selfReferential =
     (\<lambda>a. \<lparr>s_ref = None, s_type = TString ''object'', s_nullable = False,
            s_properties = Some [(''self'', SObj 0)], s_items = None,
            s_description = None, s_required = None, s_rest = []\<rparr>)"

definition mutuallyReferential :: heap where
  "mutuallyReferential =
     (\<lambda>a. if a = 0
          then \<lparr>s_ref = None, s_type = TString ''object'', s_nullable = False,
                s_properties = Some [(''id'', SBool True), (''children'', SObj 1)],
                s_items = None, s_description = None, s_required = None, s_rest = []\<rparr>
          else \<lparr>s_ref = None, s_type = TString ''array'', s_nullable = False,
                s_properties = None, s_items = Some (SObj 0),
                s_description = None, s_required = None, s_rest = []\<rparr>)"

text \<open>A schema of depth three without a cycle.\<close>

definition nestedHeap :: heap where
  "nestedHeap =
     (\<lambda>a. if a = 0
          then \<lparr>s_ref = None, s_type = TString ''object'', s_nullable = False,
                s_properties = Some [(''tags'', SObj 1)], s_items = None,
                s_description = None, s_required = None,
                s_rest = [(''example'', ''{}''), (''title'', ''Pet'')]\<rparr>
          else if a = 1
          then \<lparr>s_ref = None, s_type = TString ''array'', s_nullable = False,
                s_properties = None, s_items = Some (SObj 2),
                s_description = None, s_required = None, s_rest = []\<rparr>
          else \<lparr>s_ref = None, s_type = TString ''integer'', s_nullable = False,
                s_properties = None, s_items = None, s_description = None,
                s_required = None, s_rest = []\<rparr>)"

definition treeDocument :: document where
  "treeDocument =
     \<lparr>api_security = None,
      api_paths = Some
        [(''/nodes'',
          Some (\<lambda>m. if m = POST
                     then Some \<lparr>o_operationId = Some ''createNode'', o_description = None,
                                o_summary = None, o_parameters = None,
                                o_requestBody = Some
                                  \<lparr>rb_content = Some [(''application/json'',
                                                         \<lparr>m_schema = Some 0\<rparr>)],
                                   rb_description = None, rb_required = True\<rparr>,
                                o_security = SecurityUndefined\<rparr>
                     else None))]\<rparr>"

text \<open>
  A document with two operations on \<open>/pets\<close> whose identifiers sanitise to the same
  name. The first has a parameter with a schema and one without (declared through
  \<open>content\<close>) and no \<open>security\<close> member; the second has a JSON body and an empty
  \<open>security\<close> list. \<open>petsTools\<close> is what the extraction returns for it.
\<close>

definition petsHeap :: heap where
  "petsHeap =
     (\<lambda>a. if a = 0
          then \<lparr>s_ref = None, s_type = TString ''integer'', s_nullable = False,
                s_properties = None, s_items = None, s_description = None,
                s_required = None, s_rest = []\<rparr>
          else \<lparr>s_ref = None, s_type = TString ''string'', s_nullable = False,
                s_properties = None, s_items = None, s_description = None,
                s_required = None, s_rest = []\<rparr>)"

definition listPets :: operation where
  "listPets =
     \<lparr>o_operationId = Some ''List.Pets'', o_description = None, o_summary = Some ''List pets'',
      o_parameters = Some
        [\<lparr>p_name = ''limit'', p_in = ''query'', p_required = False, p_description = None,
          p_schema = Some 0\<rparr>,
         \<lparr>p_name = ''filter'', p_in = ''query'', p_required = False, p_description = None,
          p_schema = None\<rparr>],
      o_requestBody = None, o_security = SecurityUndefined\<rparr>"

definition createPet :: operation where
  "createPet =
     \<lparr>o_operationId = Some ''list_pets'', o_description = None, o_summary = None,
      o_parameters = None,
      o_requestBody = Some
        \<lparr>rb_content = Some [(''application/json'', \<lparr>m_schema = Some 1\<rparr>)],
         rb_description = None, rb_required = True\<rparr>,
      o_security = SecurityList []\<rparr>"

definition petsDocument :: document where
  "petsDocument =
     \<lparr>api_security = Some [[(''apiKey'', [])]],
      api_paths = Some
        [(''/pets'', Some (\<lambda>m. if m = GET then Some listPets
                               else if m = POST then Some createPet else None))]\<rparr>"

definition petsTools :: "tool list" where
  "petsTools =
     [\<lparr>name = ''list_pets'', description = ''List pets'',
       inputSchema = JObject (TString ''object'')
                       (Some [(''limit'', JObject (TString ''number'') None None None None [])])
                       None None None [],
       httpMethod = ''get'', pathTemplate = ''/pets'',
       parameters = the (o_parameters listPets),
       executionParameters = [(''limit'', ''query''), (''filter'', ''query'')],
       requestBodyContentType = None,
       securityRequirements = [[(''apiKey'', [])]],
       operationId = ''list_pets''\<rparr>,
      \<lparr>name = ''list_pets_1'', description = ''Executes POST /pets'',
       inputSchema = JObject (TString ''object'')
                       (Some [(''requestBody'',
                               JObject (TString ''string'') None None
                                 (Some ''The JSON request body.'') None [])])
                       None None (Some [''requestBody'']) [],
       httpMethod = ''post'', pathTemplate = ''/pets'',
       parameters = [],
       executionParameters = [],
       requestBodyContentType = Some ''application/json'',
       securityRequirements = [],
       operationId = ''list_pets''\<rparr>]"

section \<open>Termination of the naming loop\<close>

lemma decimal_nonempty: "decimal n \<noteq> []"
  by (subst decimal.simps) simp

lemma digit_inj: "a < 10 \<Longrightarrow> b < 10 \<Longrightarrow> asciiDigits ! a = asciiDigits ! b \<Longrightarrow> a = b"
proof -
  assume a: "a < 10" and b: "b < 10" and e: "asciiDigits ! a = asciiDigits ! b"
  have "distinct asciiDigits" by (simp add: asciiDigits_def)
  moreover have "length asciiDigits = 10" by (simp add: asciiDigits_def)
  ultimately show ?thesis using a b e by (simp add: nth_eq_iff_index_eq)
qed

text \<open>Two counters never render to the same digits.\<close>

lemma decimal_inj: "decimal m = decimal n \<Longrightarrow> m = n"
proof (induction m arbitrary: n rule: decimal.induct)
  case (1 m)
  show ?case
  proof (cases "m < 10")
    case mlt: True
    show ?thesis
    proof (cases "n < 10")
      case True
      with mlt "1.prems" show ?thesis
        by (simp add: decimal.simps[of m] decimal.simps[of n] digit_inj)
    next
      case False
      with mlt "1.prems" decimal_nonempty[of "n div 10"] show ?thesis
        by (simp add: decimal.simps[of m] decimal.simps[of n])
    qed
  next
    case mge: False
    show ?thesis
    proof (cases "n < 10")
      case True
      with mge "1.prems" decimal_nonempty[of "m div 10"] show ?thesis
        by (simp add: decimal.simps[of m] decimal.simps[of n])
    next
      case False
      with mge "1.prems" have e: "decimal (m div 10) = decimal (n div 10)"
        and l: "asciiDigits ! (m mod 10) = asciiDigits ! (n mod 10)"
        by (simp_all add: decimal.simps[of m] decimal.simps[of n])
      from "1.IH"[OF mge e] have "m div 10 = n div 10" .
      moreover from l have "m mod 10 = n mod 10" by (intro digit_inj) simp_all
      ultimately show ?thesis by (metis div_mult_mod_eq)
    qed
  qed
qed

text \<open>Only finitely many suffixed candidates are taken, since the set of names is finite.\<close>

lemma finite_candidates:
  "finite {c. counter \<le> c \<and> baseName @ ''_'' @ decimal c \<in> set usedNames}"
proof -
  have "inj (\<lambda>c. baseName @ ''_'' @ decimal c)"
    by (rule injI) (simp add: decimal_inj)
  then have "finite ((\<lambda>c. baseName @ ''_'' @ decimal c) -` set usedNames)"
    by (intro finite_vimageI) simp_all
  moreover have "{c. counter \<le> c \<and> baseName @ ''_'' @ decimal c \<in> set usedNames}
                  \<subseteq> (\<lambda>c. baseName @ ''_'' @ decimal c) -` set usedNames" by auto
  ultimately show ?thesis by (rule rev_finite_subset)
qed

lemma candidates_step:
  "{c'. c \<le> c' \<and> b @ ''_'' @ decimal c' \<in> set used} =
     (if b @ ''_'' @ decimal c \<in> set used then {c} else {})
       \<union> {c'. Suc c \<le> c' \<and> b @ ''_'' @ decimal c' \<in> set used}"
  by (auto simp: Suc_le_eq le_less)

lemma candidates_decrease:
  "card {c'. Suc c \<le> c' \<and> b @ ''_'' @ decimal c' \<in> set used}
     + (if b @ ''_'' @ decimal c \<in> set used then 1 else 0)
   = card {c'. c \<le> c' \<and> b @ ''_'' @ decimal c' \<in> set used}"
proof -
  let ?S = "{c'. Suc c \<le> c' \<and> b @ ''_'' @ decimal c' \<in> set used}"
  have fin: "finite ?S" by (rule finite_candidates)
  have notin: "c \<notin> ?S" by simp
  show ?thesis
  proof (cases "b @ ''_'' @ decimal c \<in> set used")
    case True
    then have "{c'. c \<le> c' \<and> b @ ''_'' @ decimal c' \<in> set used} = insert c ?S"
      by (subst candidates_step) simp
    with fin notin True show ?thesis by simp
  next
    case False
    then have "{c'. c \<le> c' \<and> b @ ''_'' @ decimal c' \<in> set used} = ?S"
      by (subst candidates_step) simp
    with False show ?thesis by simp
  qed
qed

text \<open>
  The loop ends: each round either leaves the taken candidates from the counter on one
  fewer, or has just left the taken names.
\<close>

termination whileUsed
proof (relation "measure (\<lambda>(b, used, c, f).
          card {c'. c \<le> c' \<and> b @ ''_'' @ decimal c' \<in> set used}
          + (if f \<in> set used then 1 else 0))")
  show "wf (measure (\<lambda>(b, used, c, f).
          card {c'. c \<le> c' \<and> b @ ''_'' @ decimal c' \<in> set used}
          + (if f \<in> set used then 1 else 0)))"
    by simp
next
  fix baseName finalToolName :: string and usedNames :: "string list" and counter :: nat
  assume "finalToolName \<in> set usedNames"
  then show "((baseName, usedNames, counter + 1, baseName @ ''_'' @ decimal counter),
              (baseName, usedNames, counter, finalToolName))
             \<in> measure (\<lambda>(b, used, c, f).
                  card {c'. c \<le> c' \<and> b @ ''_'' @ decimal c' \<in> set used}
                  + (if f \<in> set used then 1 else 0))"
    using candidates_decrease[of counter baseName usedNames] by (simp split: if_splits)
qed

declare whileUsed.simps [simp del]

section \<open>Assignment to an object\<close>

text \<open>A key that starts with no digit is no array index.\<close>

lemma arrayIndex_no_digit: "k \<noteq> [] \<Longrightarrow> hd k \<notin> set asciiDigits \<Longrightarrow> arrayIndex k = None"
  by (cases k) (simp_all add: arrayIndex_def)

lemma assign_new_name:
  "k \<noteq> ''__proto__'' \<Longrightarrow> k \<notin> fst ` set ps \<Longrightarrow> k \<noteq> [] \<Longrightarrow> hd k \<notin> set asciiDigits
     \<Longrightarrow> assign k v ps = ps @ [(k, v)]"
  by (simp add: assign_def arrayIndex_no_digit)

lemma assign_proto: "assign ''__proto__'' v ps = ps"
  by (simp add: assign_def)

text \<open>
  Array indices are the canonical numerals up to \<open>2^32 - 2\<close>; a new one is placed
  among the array indices, a new name at the end, and an old key keeps its place.
\<close>

lemma arrayIndex_examples:
  "arrayIndex ''2'' = Some 2" "arrayIndex ''10'' = Some 10" "arrayIndex ''01'' = None"
  "arrayIndex ''1'' = Some 1" "arrayIndex ''b'' = None"
  "arrayIndex ''4294967294'' = Some 4294967294" "arrayIndex ''4294967295'' = None"
  by (simp_all add: arrayIndex_def numericValue_def digitValue_def asciiDigits_def
      decimal.simps)

lemma assign_larger_index: "assign ''10'' w [(''2'', v)] = [(''2'', v), (''10'', w)]"
  by (simp add: assign_def arrayIndex_examples)

lemma assign_name_after_indices:
  "assign ''b'' x [(''2'', v), (''10'', w)] = [(''2'', v), (''10'', w), (''b'', x)]"
  by (simp add: assign_def arrayIndex_examples)

lemma assign_smaller_index:
  "assign ''1'' y [(''2'', v), (''10'', w), (''b'', x)]
     = [(''1'', y), (''2'', v), (''10'', w), (''b'', x)]"
  by (simp add: assign_def arrayIndex_examples)

lemma assign_existing_key: "assign ''b'' z [(''1'', y), (''b'', x)] = [(''1'', y), (''b'', z)]"
  by (simp add: assign_def arrayIndex_examples)

lemma overwrite_keys: "map fst (overwrite k v ps) = map fst ps"
  by (induction ps) auto

lemma insertIndexed_keys: "fst ` set (insertIndexed n k v ps) = insert k (fst ` set ps)"
proof (induction ps)
  case Nil
  show ?case by simp
next
  case (Cons p ps)
  obtain k' v' where p: "p = (k', v')" by (cases p)
  show ?case
  proof (cases "arrayIndex k'")
    case None
    with p show ?thesis by simp
  next
    case (Some n')
    with p Cons.IH show ?thesis by (simp add: insert_commute)
  qed
qed

lemma insertIndexed_distinct:
  "distinct (map fst ps) \<Longrightarrow> k \<notin> fst ` set ps \<Longrightarrow> distinct (map fst (insertIndexed n k v ps))"
proof (induction ps)
  case Nil
  show ?case by simp
next
  case (Cons p ps)
  obtain k' v' where p: "p = (k', v')" by (cases p)
  show ?case
  proof (cases "arrayIndex k'")
    case None
    with p Cons.prems show ?thesis by simp
  next
    case (Some n')
    show ?thesis
    proof (cases "n' < n")
      case True
      from Cons.prems p have "distinct (map fst ps)" "k \<notin> fst ` set ps" "k' \<noteq> k"
        "k' \<notin> fst ` set ps"
        by auto
      with Cons.IH have "distinct (map fst (insertIndexed n k v ps))"
        "k' \<notin> fst ` set (insertIndexed n k v ps)"
        by (simp_all add: insertIndexed_keys)
      with p Some True show ?thesis by simp
    next
      case False
      with p Some Cons.prems show ?thesis by simp
    qed
  qed
qed

text \<open>The keys after an assignment; \<open>__proto__\<close> never becomes one.\<close>

lemma assign_key_set:
  "fst ` set (assign k v ps)
     = (if k = ''__proto__'' then fst ` set ps else insert k (fst ` set ps))"
proof (cases "k = ''__proto__''")
  case True
  then show ?thesis by (simp add: assign_def)
next
  case notproto: False
  show ?thesis
  proof (cases "k \<in> fst ` set ps")
    case True
    have "fst ` set (overwrite k v ps) = fst ` set ps"
      using overwrite_keys[of k v ps] by (metis set_map)
    with True notproto show ?thesis by (simp add: assign_def insert_absorb)
  next
    case False
    with notproto show ?thesis
      by (cases "arrayIndex k") (simp_all add: assign_def insertIndexed_keys)
  qed
qed

lemma assign_distinct: "distinct (map fst ps) \<Longrightarrow> distinct (map fst (assign k v ps))"
proof (cases "k = ''__proto__''")
  case True
  assume "distinct (map fst ps)"
  with True show ?thesis by (simp add: assign_def)
next
  case notproto: False
  assume d: "distinct (map fst ps)"
  show ?thesis
  proof (cases "k \<in> fst ` set ps")
    case True
    with notproto d show ?thesis by (simp add: assign_def overwrite_keys)
  next
    case False
    with notproto d show ?thesis
      by (cases "arrayIndex k") (simp_all add: assign_def insertIndexed_distinct)
  qed
qed

section \<open>Credentials and tokens\<close>

lemmas char_tables = asciiLower_def asciiUpper_def asciiDigits_def

text \<open>
  C4. The claim: for an OAuth2 scheme named \<open>S\<close> the emitted token routine reads the
  client id and secret from \<open>OAUTH_CLIENT_ID_<S'>\<close> and \<open>OAUTH_CLIENT_SECRET_<S'>\<close>,
  \<open>S'\<close> being \<open>S\<close> upper-cased with non-alphanumerics replaced by underscores. The
  emitted routine does not: its names were fixed when the generator ran, from the
  literal \<open>'schemeName'\<close>. For the scheme \<open>petstore_auth\<close>, with the credentials stored
  under the names that \<open>getEnvVarName\<close> and the availability check of \<open>executeApiTool\<close>
  use, the scheme counts as available and yet the routine finds no credentials, sends no
  request and returns null.
\<close>

theorem acquireOAuth2Token_reads_fixed_variables:
  "emittedClientIdVar = ''OAUTH_CLIENT_ID_SCHEMENAME''
   \<and> emittedClientSecretVar = ''OAUTH_CLIENT_SECRET_SCHEMENAME''
   \<and> getEnvVarName ''petstore_auth'' OAUTH_CLIENT_ID = ''OAUTH_CLIENT_ID_PETSTORE_AUTH''
   \<and> getEnvVarName ''petstore_auth'' OAUTH_CLIENT_SECRET = ''OAUTH_CLIENT_SECRET_PETSTORE_AUTH''
   \<and> schemeAvailable
        [''petstore_auth'' \<mapsto> \<lparr>scheme_type = ''oauth2'', scheme_scheme = None,
            scheme_flows = Some \<lparr>clientCredentials = Some \<lparr>tokenUrl = Some ''https://auth/token''\<rparr>,
                                 password = None\<rparr>\<rparr>]
        [''OAUTH_CLIENT_ID_PETSTORE_AUTH'' \<mapsto> ''id'', ''OAUTH_CLIENT_SECRET_PETSTORE_AUTH'' \<mapsto> ''secret'']
        ''petstore_auth''
   \<and> acquireOAuth2Token
        [''OAUTH_CLIENT_ID_PETSTORE_AUTH'' \<mapsto> ''id'', ''OAUTH_CLIENT_SECRET_PETSTORE_AUTH'' \<mapsto> ''secret'']
        axios now Map.empty ''petstore_auth''
        \<lparr>scheme_type = ''oauth2'', scheme_scheme = None,
          scheme_flows = Some \<lparr>clientCredentials = Some \<lparr>tokenUrl = Some ''https://auth/token''\<rparr>,
                               password = None\<rparr>\<rparr>
       = \<lparr>acquired = None, cache_after = Map.empty, requests = []\<rparr>"
  by (simp add: emittedClientIdVar_def emittedClientSecretVar_def getEnvVarName_def
      toUpperCase_def toUpperChar_def replaceOutside_def isAlnum_def char_tables
      schemeAvailable_def runtimeEnvVar_def truthy_def hasSupportedFlow_def
      acquireOAuth2Token_def)

text \<open>
  C5. Security resolution returns the first requirement, in declared order, all of whose
  schemes are available; it returns nothing exactly when no requirement has all of its
  schemes available. A requirement is satisfied when every scheme it names is available.
\<close>

theorem appliedSecurity_first_satisfied:
  "(appliedSecurity schemes env reqs = Some r \<longleftrightarrow>
      (\<exists>i<length reqs. reqs ! i = r \<and> requirementSatisfied schemes env r
          \<and> (\<forall>j<i. \<not> requirementSatisfied schemes env (reqs ! j))))
   \<and> (appliedSecurity schemes env reqs = None \<longleftrightarrow>
        (\<forall>q \<in> set reqs. \<not> requirementSatisfied schemes env q))
   \<and> (requirementSatisfied schemes env r \<longleftrightarrow>
        (\<forall>(schemeName, scopes) \<in> set r. schemeAvailable schemes env schemeName))"
proof (intro conjI)
  show "appliedSecurity schemes env reqs = Some r \<longleftrightarrow>
      (\<exists>i<length reqs. reqs ! i = r \<and> requirementSatisfied schemes env r
          \<and> (\<forall>j<i. \<not> requirementSatisfied schemes env (reqs ! j)))"
    unfolding appliedSecurity_def find_Some_iff by auto
  show "appliedSecurity schemes env reqs = None \<longleftrightarrow>
        (\<forall>q \<in> set reqs. \<not> requirementSatisfied schemes env q)"
    unfolding appliedSecurity_def find_None_iff by auto
  show "requirementSatisfied schemes env r \<longleftrightarrow>
        (\<forall>(schemeName, scopes) \<in> set r. schemeAvailable schemes env schemeName)"
    unfolding requirementSatisfied_def list_all_iff by auto
qed

theorem appliedSecurity_first_satisfied_witness:
  "appliedSecurity
     [''A'' \<mapsto> \<lparr>scheme_type = ''apiKey'', scheme_scheme = None, scheme_flows = None\<rparr>,
      ''B'' \<mapsto> \<lparr>scheme_type = ''apiKey'', scheme_scheme = None, scheme_flows = None\<rparr>]
     [''API_KEY_B'' \<mapsto> ''key'']
     [[(''A'', [])], [(''B'', [])]] = Some [(''B'', [])]
   \<and> appliedSecurity
     [''A'' \<mapsto> \<lparr>scheme_type = ''apiKey'', scheme_scheme = None, scheme_flows = None\<rparr>,
      ''B'' \<mapsto> \<lparr>scheme_type = ''apiKey'', scheme_scheme = None, scheme_flows = None\<rparr>]
     [''API_KEY_B'' \<mapsto> ''key'']
     [[(''A'', []), (''B'', [])]] = None"
proof -
  let ?S = "[''A'' \<mapsto> \<lparr>scheme_type = ''apiKey'', scheme_scheme = None, scheme_flows = None\<rparr>,
             ''B'' \<mapsto> \<lparr>scheme_type = ''apiKey'', scheme_scheme = None, scheme_flows = None\<rparr>]"
  let ?env = "[''API_KEY_B'' \<mapsto> ''key'']"
  have a: "\<not> schemeAvailable ?S ?env ''A''"
    by (simp add: schemeAvailable_def runtimeEnvVar_def truthy_def toUpperCase_def
        toUpperChar_def replaceOutside_def isAlnum_def char_tables)
  have b: "schemeAvailable ?S ?env ''B''"
    by (simp add: schemeAvailable_def runtimeEnvVar_def truthy_def toUpperCase_def
        toUpperChar_def replaceOutside_def isAlnum_def char_tables)
  have sa: "\<not> requirementSatisfied ?S ?env [(''A'', [])]"
    using a appliedSecurity_first_satisfied[of ?S ?env "[]" "[(''A'', [])]", THEN conjunct2, THEN conjunct2] by simp
  have sb: "requirementSatisfied ?S ?env [(''B'', [])]"
    using b appliedSecurity_first_satisfied[of ?S ?env "[]" "[(''B'', [])]", THEN conjunct2, THEN conjunct2] by simp
  have sab: "\<not> requirementSatisfied ?S ?env [(''A'', []), (''B'', [])]"
    using a appliedSecurity_first_satisfied[of ?S ?env "[]" "[(''A'', []), (''B'', [])]", THEN conjunct2, THEN conjunct2] by simp
  have "\<exists>i<length [[(''A'', [])], [(''B'', [])]].
          [[(''A'', [])], [(''B'', [])]] ! i = [(''B'', [])]
          \<and> requirementSatisfied ?S ?env [(''B'', [])]
          \<and> (\<forall>j<i. \<not> requirementSatisfied ?S ?env ([[(''A'', [])], [(''B'', [])]] ! j))"
    using sa sb by (intro exI[of _ 1]) simp
  then have first: "appliedSecurity ?S ?env [[(''A'', [])], [(''B'', [])]] = Some [(''B'', [])]"
    using appliedSecurity_first_satisfied[of ?S ?env "[[(''A'', [])], [(''B'', [])]]" "[(''B'', [])]", THEN conjunct1] by blast
  have "\<forall>q \<in> set [[(''A'', []), (''B'', [])]]. \<not> requirementSatisfied ?S ?env q"
    using sab by simp
  then have second: "appliedSecurity ?S ?env [[(''A'', []), (''B'', [])]] = None"
    using appliedSecurity_first_satisfied[of ?S ?env "[[(''A'', []), (''B'', [])]]" "[]", THEN conjunct2, THEN conjunct1] by blast
  from first second show ?thesis by blast
qed



section \<open>Schema translation\<close>

text \<open>
  A schema without a cycle is translated once the stack has a frame for each level of
  nesting, whatever is left over.
\<close>

lemma nested_translates:
  "mapOpenApiSchemaToJsonSchema (Suc (Suc (Suc d))) nestedHeap 0
   = Inr (JObject (TString ''object'')
            (Some [(''tags'',
                    JObject (TString ''array'') None
                      (Some (JObject (TString ''number'') None None None None []))
                      None None [])])
            None None None [(''title'', ''Pet'')])"
  by (simp add: nestedHeap_def foldNullable_def openApiOnlyKeys_def assign_new_name
      asciiDigits_def)

lemma nested_needs_three_frames:
  "mapOpenApiSchemaToJsonSchema (Suc (Suc 0)) nestedHeap 0 = Inl RangeError"
  by (simp add: nestedHeap_def foldNullable_def openApiOnlyKeys_def)

text \<open>On a cycle no stack is deep enough.\<close>

lemma self_overflow: "mapOpenApiSchemaToJsonSchema d selfReferential 0 = Inl RangeError"
proof (induction d)
  case 0
  show ?case by simp
next
  case (Suc d)
  then show ?case by (simp add: selfReferential_def foldNullable_def)
qed

lemma mutual_overflow:
  "mapOpenApiSchemaToJsonSchema d mutuallyReferential 0 = Inl RangeError
   \<and> mapOpenApiSchemaToJsonSchema d mutuallyReferential (Suc 0) = Inl RangeError"
proof (induction d)
  case 0
  show ?case by simp
next
  case (Suc d)
  then show ?case by (simp add: mutuallyReferential_def foldNullable_def)
qed

text \<open>
  C1. The claim: a schema that reaches itself through \<open>properties\<close>/\<open>items\<close> is
  translated within bounded depth, with a placeholder at the point of re-entry. The
  translator keeps no record of the nodes it is inside: on the self-referential schema
  and on the mutually referential pair the recursion uses up every stack it is given and
  ends in \<open>RangeError\<close>, and so does the extraction of the document that uses the schema.
\<close>

theorem cyclic_schema_exhausts_stack:
  "mapOpenApiSchemaToJsonSchema d selfReferential 0 = Inl RangeError
   \<and> mapOpenApiSchemaToJsonSchema d mutuallyReferential 0 = Inl RangeError
   \<and> extractToolsFromApi d selfReferential treeDocument = Inl RangeError"
proof -
  have "generateInputSchemaAndDetails d selfReferential
          \<lparr>o_operationId = Some ''createNode'', o_description = None,
            o_summary = None, o_parameters = None,
            o_requestBody = Some
              \<lparr>rb_content = Some [(''application/json'', \<lparr>m_schema = Some 0\<rparr>)],
               rb_description = None, rb_required = True\<rparr>,
            o_security = SecurityUndefined\<rparr> = Inl RangeError"
    by (simp add: generateInputSchemaAndDetails_def requestBodyProperty_def self_overflow)
  then have "extractToolsFromApi d selfReferential treeDocument = Inl RangeError"
    by (simp add: extractToolsFromApi_def treeDocument_def HttpMethods_def
        processOperation_def rawBaseName_def Let_def)
  with self_overflow mutual_overflow show ?thesis by simp
qed

text \<open>
  C9, as stated, fails: a nullable schema of type \<open>integer\<close> gets the type
  \<open>[number, null]\<close>, not \<open>[integer, null]\<close>, and a nullable reference object gets the
  type \<open>object\<close> of the placeholder.
\<close>

theorem nullable_counterexample:
  "mapOpenApiSchemaToJsonSchema (Suc 0)
     (\<lambda>a. \<lparr>s_ref = None, s_type = TString ''integer'', s_nullable = True,
            s_properties = None, s_items = None, s_description = None,
            s_required = None, s_rest = []\<rparr>) 0
   = Inr (JObject (TArray [''number'', ''null'']) None None None None [])
   \<and> mapOpenApiSchemaToJsonSchema (Suc 0)
     (\<lambda>a. \<lparr>s_ref = Some ''#/components/schemas/Pet'', s_type = TString ''string'',
            s_nullable = True, s_properties = None, s_items = None, s_description = None,
            s_required = None, s_rest = []\<rparr>) 0
   = Inr (JObject (TString ''object'') None None None None [])"
  by (simp add: foldNullable_def unconstrainedObject_def)

text \<open>
  C9, amended. For a nullable schema object that is not a reference object the
  translation returns (with any stack of at least one frame) and the type of the result
  is: the declared array with \<open>null\<close> appended if absent; for a single declared name the
  two-element list of that name, \<open>integer\<close> being replaced by \<open>number\<close>, and \<open>null\<close>;
  and exactly \<open>null\<close> if no type was declared. A nullable reference object is
  translated to the placeholder \<open>{ type: 'object' }\<close>.
\<close>

theorem nullable_folds_null:
  assumes "s_nullable (h a)"
  shows "(s_ref (h a) = None \<longrightarrow>
           (\<exists>js. mapOpenApiSchemaToJsonSchema (Suc d) h a = Inr js
               \<and> j_type js =
                   (case s_type (h a) of
                      TArray ts \<Rightarrow> if ''null'' \<in> set ts then TArray ts
                                   else TArray (ts @ [''null''])
                    | TString s \<Rightarrow> TArray [if s = ''integer'' then ''number'' else s, ''null'']
                    | TUndefined \<Rightarrow> TString ''null'')))
         \<and> (s_ref (h a) \<noteq> None \<longrightarrow>
               mapOpenApiSchemaToJsonSchema (Suc d) h a = Inr unconstrainedObject)"
  using assms by (cases "s_type (h a)") (simp_all add: foldNullable_def Let_def)

theorem nullable_folds_null_witness:
  "\<exists>js. mapOpenApiSchemaToJsonSchema (Suc 0)
           (\<lambda>a. \<lparr>s_ref = None, s_type = TString ''string'', s_nullable = True,
                  s_properties = None, s_items = None, s_description = None,
                  s_required = None, s_rest = []\<rparr>) 0 = Inr js
        \<and> j_type js = TArray [''string'', ''null'']"
  using nullable_folds_null[of "\<lambda>a. \<lparr>s_ref = None, s_type = TString ''string'',
                  s_nullable = True,
                  s_properties = None, s_items = None, s_description = None,
                  s_required = None, s_rest = []\<rparr>" 0 0, THEN conjunct1]
  by simp

section \<open>The naming loop and the shape of a run\<close>

text \<open>The loop leaves with a name that is not taken.\<close>

lemma whileUsed_fresh: "whileUsed b used c f \<notin> set used"
proof (induction b used c f rule: whileUsed.induct)
  case (1 baseName usedNames counter finalToolName)
  then show ?case by (subst whileUsed.simps) simp
qed

lemma whileUsed_unused: "f \<notin> set used \<Longrightarrow> whileUsed b used c f = f"
  by (subst whileUsed.simps) simp

lemma whileUsed_least:
  "f \<in> set used \<Longrightarrow>
     \<exists>k\<ge>c. whileUsed b used c f = b @ ''_'' @ decimal k
           \<and> (\<forall>k'. c \<le> k' \<and> k' < k \<longrightarrow> b @ ''_'' @ decimal k' \<in> set used)"
proof (induction b used c f rule: whileUsed.induct)
  case (1 baseName usedNames counter finalToolName)
  show ?case
  proof (cases "baseName @ ''_'' @ decimal counter \<in> set usedNames")
    case True
    from "1.IH"[OF "1.prems" True] obtain k where k: "counter + 1 \<le> k"
      "whileUsed baseName usedNames (counter + 1) (baseName @ ''_'' @ decimal counter)
         = baseName @ ''_'' @ decimal k"
      "\<forall>k'. counter + 1 \<le> k' \<and> k' < k \<longrightarrow> baseName @ ''_'' @ decimal k' \<in> set usedNames"
      by blast
    have "\<forall>k'. counter \<le> k' \<and> k' < k \<longrightarrow> baseName @ ''_'' @ decimal k' \<in> set usedNames"
    proof (intro allI impI)
      fix k' assume "counter \<le> k' \<and> k' < k"
      then show "baseName @ ''_'' @ decimal k' \<in> set usedNames"
        using True k(3) by (cases "k' = counter") auto
    qed
    with k(1,2) "1.prems" show ?thesis
      by (subst whileUsed.simps) (auto intro!: exI[of _ k])
  next
    case False
    then have "whileUsed baseName usedNames (counter + 1) (baseName @ ''_'' @ decimal counter)
                 = baseName @ ''_'' @ decimal counter"
      by (rule whileUsed_unused)
    with "1.prems" show ?thesis
      by (subst whileUsed.simps) (auto intro!: exI[of _ counter])
  qed
qed

lemma add_fresh: "x \<notin> set used \<Longrightarrow> add x used = used @ [x]"
  by (simp add: add_def)

lemma appendParts_prefix: "\<exists>suffix. appendParts parts nm = nm @ suffix"
proof (induction parts arbitrary: nm)
  case Nil
  show ?case by simp
next
  case (Cons part rest)
  have "\<exists>suffix. appendParts rest (nm @ x) = nm @ suffix" for x
    using Cons.IH[of "nm @ x"] by auto
  with Cons.IH[of nm] show ?case by simp
qed

lemma generateOperationId_nonempty: "generateOperationId (methodString m) path \<noteq> []"
proof -
  have ne: "toLowerCase (methodString m) \<noteq> []"
    by (cases m) (simp_all add: toLowerCase_def)
  obtain suffix where
    "appendParts (filter (\<lambda>p. p \<noteq> []) (splitOn CHR ''/'' path)) (toLowerCase (methodString m))
       = toLowerCase (methodString m) @ suffix"
    using appendParts_prefix by blast
  with ne show ?thesis
    by (auto simp add: generateOperationId_def Let_def split: list.splits)
qed

lemma rawBaseName_nonempty: "rawBaseName m path op \<noteq> []"
  by (simp add: rawBaseName_def generateOperationId_nonempty split: option.splits)

lemma processOperation_produces:
  assumes "processOperation d h gs path m op (tools, map name tools) = Inr st'"
  shows "\<exists>t. st' = (tools @ [t], map name (tools @ [t]))
             \<and> name t = whileUsed (operationId t) (map name tools) 1 (operationId t)
             \<and> producedFrom d h gs (path, m, op) t"
proof -
  let ?b = "sanitizeName (rawBaseName m path op)"
  let ?n = "whileUsed ?b (map name tools) 1 ?b"
  have fresh: "add ?n (map name tools) = map name tools @ [?n]"
    by (rule add_fresh) (rule whileUsed_fresh)
  from assms obtain details where
    det: "generateInputSchemaAndDetails d h op = Inr details"
    by (auto simp add: processOperation_def rawBaseName_nonempty Let_def split: sum.splits)
  with assms fresh show ?thesis
    by (auto simp add: processOperation_def rawBaseName_nonempty Let_def producedFrom_def
        split: sum.splits)
qed

lemma allocated_append:
  "allocated used (xs @ ys) = (allocated used xs \<and> allocated (used @ map name xs) ys)"
  by (induction xs arbitrary: used) auto

lemma methodLoop_produces:
  assumes "methodLoop d h gs path item ms (tools, map name tools) = Inr st'"
  shows "\<exists>new. st' = (tools @ new, map name (tools @ new))
             \<and> list_all2 (producedFrom d h gs) (operationsOfItem path item ms) new
             \<and> allocated (map name tools) new"
  using assms
proof (induction ms arbitrary: tools)
  case Nil
  then show ?case by (auto simp add: operationsOfItem_def)
next
  case (Cons m ms)
  show ?case
  proof (cases "item m")
    case None
    with Cons.prems have "methodLoop d h gs path item ms (tools, map name tools) = Inr st'"
      by simp
    from Cons.IH[OF this] None show ?thesis by (simp add: operationsOfItem_def)
  next
    case (Some op)
    with Cons.prems obtain st1 where
      p: "processOperation d h gs path m op (tools, map name tools) = Inr st1"
      and l: "methodLoop d h gs path item ms st1 = Inr st'"
      by (auto split: sum.splits)
    from processOperation_produces[OF p] obtain t where
      t: "st1 = (tools @ [t], map name (tools @ [t]))"
         "name t = whileUsed (operationId t) (map name tools) 1 (operationId t)"
         "producedFrom d h gs (path, m, op) t"
      by blast
    from l t(1) have "methodLoop d h gs path item ms (tools @ [t], map name (tools @ [t])) = Inr st'"
      by simp
    from Cons.IH[OF this] obtain new where
      n: "st' = ((tools @ [t]) @ new, map name ((tools @ [t]) @ new))"
         "list_all2 (producedFrom d h gs) (operationsOfItem path item ms) new"
         "allocated (map name (tools @ [t])) new"
      by blast
    show ?thesis
    proof (intro exI[of _ "t # new"] conjI)
      show "st' = (tools @ t # new, map name (tools @ t # new))" using n(1) by simp
      show "list_all2 (producedFrom d h gs) (operationsOfItem path item (m # ms)) (t # new)"
        using n(2) t(3) Some by (simp add: operationsOfItem_def)
      show "allocated (map name tools) (t # new)" using n(3) t(2) by simp
    qed
  qed
qed

lemma pathLoop_produces:
  assumes "pathLoop d h gs paths (tools, map name tools) = Inr st'"
  shows "\<exists>new. st' = (tools @ new, map name (tools @ new))
             \<and> list_all2 (producedFrom d h gs) (operationsOfPaths paths) new
             \<and> allocated (map name tools) new"
  using assms
proof (induction paths arbitrary: tools)
  case Nil
  then show ?case by (auto simp add: operationsOfPaths_def)
next
  case (Cons entry rest)
  obtain path item where entry: "entry = (path, item)" by (cases entry)
  show ?case
  proof (cases item)
    case None
    with Cons.prems entry have "pathLoop d h gs rest (tools, map name tools) = Inr st'" by simp
    from Cons.IH[OF this] entry None show ?thesis by (simp add: operationsOfPaths_def)
  next
    case (Some pathItem)
    with Cons.prems entry obtain st1 where
      m: "methodLoop d h gs path pathItem HttpMethods (tools, map name tools) = Inr st1"
      and l: "pathLoop d h gs rest st1 = Inr st'"
      by (auto split: sum.splits)
    from methodLoop_produces[OF m] obtain new1 where
      n1: "st1 = (tools @ new1, map name (tools @ new1))"
          "list_all2 (producedFrom d h gs) (operationsOfItem path pathItem HttpMethods) new1"
          "allocated (map name tools) new1"
      by blast
    from l n1(1) have "pathLoop d h gs rest (tools @ new1, map name (tools @ new1)) = Inr st'"
      by simp
    from Cons.IH[OF this] obtain new2 where
      n2: "st' = ((tools @ new1) @ new2, map name ((tools @ new1) @ new2))"
          "list_all2 (producedFrom d h gs) (operationsOfPaths rest) new2"
          "allocated (map name (tools @ new1)) new2"
      by blast
    show ?thesis
    proof (intro exI[of _ "new1 @ new2"] conjI)
      show "st' = (tools @ new1 @ new2, map name (tools @ new1 @ new2))" using n2(1) by simp
      show "list_all2 (producedFrom d h gs) (operationsOfPaths (entry # rest)) (new1 @ new2)"
        using n1(2) n2(2) entry Some
        by (simp add: operationsOfPaths_def list_all2_appendI)
      show "allocated (map name tools) (new1 @ new2)"
        using n1(3) n2(3) by (simp add: allocated_append)
    qed
  qed
qed

lemma extractToolsFromApi_produces:
  assumes "extractToolsFromApi d h api = Inr tools"
  shows "list_all2 (producedFrom d h (globalSecurity api)) (declaredOperations api) tools"
    and "allocated [] tools"
proof -
  show "list_all2 (producedFrom d h (globalSecurity api)) (declaredOperations api) tools"
  proof (cases "api_paths api")
    case None
    with assms show ?thesis by (simp add: extractToolsFromApi_def declaredOperations_def)
  next
    case (Some paths)
    with assms obtain used where
      "pathLoop d h (globalSecurity api) paths ([], map name ([] :: tool list)) = Inr (tools, used)"
      by (auto simp add: extractToolsFromApi_def globalSecurity_def split: sum.splits)
    from pathLoop_produces[OF this] Some show ?thesis
      by (simp add: declaredOperations_def)
  qed
  show "allocated [] tools"
  proof (cases "api_paths api")
    case None
    with assms show ?thesis by (auto simp add: extractToolsFromApi_def)
  next
    case (Some paths)
    with assms obtain used where
      "pathLoop d h (globalSecurity api) paths ([], map name ([] :: tool list)) = Inr (tools, used)"
      by (auto simp add: extractToolsFromApi_def globalSecurity_def split: sum.splits)
    from pathLoop_produces[OF this] show ?thesis by simp
  qed
qed

lemma allocated_distinct:
  "allocated used ts \<Longrightarrow> distinct used \<Longrightarrow> distinct (used @ map name ts)"
proof (induction ts arbitrary: used)
  case Nil
  then show ?case by simp
next
  case (Cons t ts)
  from Cons.prems(1) have n: "name t \<notin> set used"
    using whileUsed_fresh[of "operationId t" used 1 "operationId t"] by simp
  with Cons.prems have "distinct (used @ [name t])" by simp
  moreover have "allocated (used @ [name t]) ts"
    using Cons.prems(1) allocated.simps(2)[of used t ts] by blast
  ultimately have "distinct ((used @ [name t]) @ map name ts)" by (rule Cons.IH[rotated])
  then show ?case by simp
qed

lemma allocated_nth:
  "allocated used ts \<Longrightarrow> j < length ts \<Longrightarrow>
     name (ts ! j) = whileUsed (operationId (ts ! j)) (used @ map name (take j ts)) 1
                       (operationId (ts ! j))"
proof (induction ts arbitrary: used j)
  case Nil
  then show ?case by simp
next
  case (Cons t ts)
  show ?case
  proof (cases j)
    case 0
    with Cons.prems show ?thesis by simp
  next
    case (Suc i)
    have "allocated (used @ [name t]) ts"
      using Cons.prems(1) allocated.simps(2)[of used t ts] by blast
    moreover from Cons.prems(2) Suc have "i < length ts" by simp
    ultimately have "name (ts ! i) = whileUsed (operationId (ts ! i))
                        ((used @ [name t]) @ map name (take i ts)) 1 (operationId (ts ! i))"
      by (rule Cons.IH)
    with Suc show ?thesis by simp
  qed
qed

section \<open>Tool names\<close>

text \<open>The run on the example document.\<close>

lemma sanitize_List_Pets: "sanitizeName ''List.Pets'' = ''list_pets''"
  by (simp add: sanitizeName_def toLowerCase_def toLowerChar_def replaceOutside_def
      replaceDots_def isNameChar_def char_tables)

lemma sanitize_list_pets: "sanitizeName ''list_pets'' = ''list_pets''"
  by (simp add: sanitizeName_def toLowerCase_def toLowerChar_def replaceOutside_def
      replaceDots_def isNameChar_def char_tables)

lemma decimal_1: "decimal (Suc 0) = ''1''"
  by (simp add: decimal.simps asciiDigits_def)

lemma pets_run: "extractToolsFromApi (Suc 0) petsHeap petsDocument = Inr petsTools"
  by (simp add: extractToolsFromApi_def petsDocument_def HttpMethods_def processOperation_def
      rawBaseName_def listPets_def createPet_def sanitize_List_Pets sanitize_list_pets
      whileUsed.simps decimal_1 add_def orElse_def truthy_def
      generateInputSchemaAndDetails_def requestBodyProperty_def objectSchema_def
      petsHeap_def foldNullable_def operationSecurity_def
      toUpperCase_def toUpperChar_def char_tables petsTools_def Let_def assign_new_name)

text \<open>
  C2. No two tools of a run share a name: each tool's name is the loop's result against
  the names of the tools before it, the loop never leaves with a name that is already in
  \<open>usedNames\<close>, and the chosen name is in \<open>usedNames\<close> after \<open>add\<close>.
\<close>

theorem tool_names_unique:
  assumes "extractToolsFromApi d h api = Inr tools"
  shows "distinct (map name tools)
         \<and> (\<forall>j<length tools.
               name (tools ! j) = whileUsed (operationId (tools ! j)) (map name (take j tools)) 1
                                    (operationId (tools ! j)))
         \<and> (\<forall>baseName usedNames.
               whileUsed baseName usedNames 1 baseName \<notin> set usedNames
               \<and> whileUsed baseName usedNames 1 baseName
                    \<in> set (add (whileUsed baseName usedNames 1 baseName) usedNames))"
proof (intro conjI allI impI)
  from assms have a: "allocated [] tools" by (rule extractToolsFromApi_produces)
  from allocated_distinct[OF a] show "distinct (map name tools)" by simp
  fix j assume "j < length tools"
  from allocated_nth[OF a this]
  show "name (tools ! j) = whileUsed (operationId (tools ! j)) (map name (take j tools)) 1
                             (operationId (tools ! j))"
    by simp
next
  fix baseName usedNames
  show "whileUsed baseName usedNames 1 baseName \<notin> set usedNames" by (rule whileUsed_fresh)
  show "whileUsed baseName usedNames 1 baseName
          \<in> set (add (whileUsed baseName usedNames 1 baseName) usedNames)"
    by (simp add: add_def)
qed

theorem tool_names_unique_witness:
  "extractToolsFromApi (Suc 0) petsHeap petsDocument = Inr petsTools
   \<and> distinct (map name petsTools)
   \<and> map name petsTools = [''list_pets'', ''list_pets_1'']"
  using tool_names_unique[OF pets_run] pets_run by (simp add: petsTools_def)

text \<open>
  C3, as stated, fails: of two operations with the same sanitised name the second gets
  the suffix \<open>_1\<close>, not \<open>_2\<close>.
\<close>

theorem collision_suffix_counterexample:
  "map_sum id (map (\<lambda>t. (operationId t, name t)))
     (extractToolsFromApi (Suc 0) petsHeap petsDocument)
   = Inr [(''list_pets'', ''list_pets''), (''list_pets'', ''list_pets_1'')]
   \<and> ''list_pets_1'' \<noteq> ''list_pets_2''"
  by (simp add: pets_run petsTools_def)

text \<open>
  C3, amended. A tool keeps its base name if no earlier tool has that name; otherwise it
  gets the base name with \<open>_k\<close> for the least \<open>k \<ge> 1\<close> whose suffixed name no earlier
  tool has (the counter starts at 1, so the suffixes are \<open>_1\<close>, \<open>_2\<close>, ... in first-seen
  order). In particular, of two operations with the same base name, when no other earlier
  tool is named by the base name or by the base name with \<open>_1\<close>, the first keeps the
  base name and the second gets the suffix \<open>_1\<close>.
\<close>

theorem collision_suffix:
  assumes run: "extractToolsFromApi d h api = Inr tools" and j: "j < length tools"
  shows "(operationId (tools ! j) \<notin> set (map name (take j tools))
            \<longrightarrow> name (tools ! j) = operationId (tools ! j))
         \<and> (operationId (tools ! j) \<in> set (map name (take j tools))
            \<longrightarrow> (\<exists>k\<ge>1. name (tools ! j) = operationId (tools ! j) @ ''_'' @ decimal k
                    \<and> name (tools ! j) \<notin> set (map name (take j tools))
                    \<and> (\<forall>k'. 1 \<le> k' \<and> k' < k
                          \<longrightarrow> operationId (tools ! j) @ ''_'' @ decimal k'
                                \<in> set (map name (take j tools)))))
         \<and> (i < j \<and> operationId (tools ! i) = operationId (tools ! j)
             \<and> (\<forall>k<j. k \<noteq> i \<longrightarrow> name (tools ! k) \<noteq> operationId (tools ! j)
                                 \<and> name (tools ! k) \<noteq> operationId (tools ! j) @ ''_1'')
            \<longrightarrow> name (tools ! i) = operationId (tools ! j)
                \<and> name (tools ! j) = operationId (tools ! j) @ ''_1'')"
proof -
  let ?b = "operationId (tools ! j)"
  let ?used = "map name (take j tools)"
  from run have a: "allocated [] tools" by (rule extractToolsFromApi_produces)
  have nj: "name (tools ! j) = whileUsed ?b ?used 1 ?b"
    using allocated_nth[OF a j] by simp
  have unused: "?b \<notin> set ?used \<longrightarrow> name (tools ! j) = ?b"
    using nj by (simp add: whileUsed_unused)
  have taken: "?b \<in> set ?used \<longrightarrow>
        (\<exists>k\<ge>1. name (tools ! j) = ?b @ ''_'' @ decimal k
           \<and> name (tools ! j) \<notin> set ?used
           \<and> (\<forall>k'. 1 \<le> k' \<and> k' < k \<longrightarrow> ?b @ ''_'' @ decimal k' \<in> set ?used))"
  proof
    assume "?b \<in> set ?used"
    from whileUsed_least[OF this, of 1 ?b] obtain k where
      k: "1 \<le> k" "whileUsed ?b ?used 1 ?b = ?b @ ''_'' @ decimal k"
         "\<forall>k'. 1 \<le> k' \<and> k' < k \<longrightarrow> ?b @ ''_'' @ decimal k' \<in> set ?used"
      by blast
    moreover have "name (tools ! j) \<notin> set ?used"
      unfolding nj by (rule whileUsed_fresh)
    ultimately show "\<exists>k\<ge>1. name (tools ! j) = ?b @ ''_'' @ decimal k
           \<and> name (tools ! j) \<notin> set ?used
           \<and> (\<forall>k'. 1 \<le> k' \<and> k' < k \<longrightarrow> ?b @ ''_'' @ decimal k' \<in> set ?used)"
      using nj by auto
  qed
  have pair: "i < j \<and> operationId (tools ! i) = ?b
             \<and> (\<forall>k<j. k \<noteq> i \<longrightarrow> name (tools ! k) \<noteq> ?b \<and> name (tools ! k) \<noteq> ?b @ ''_1'')
            \<longrightarrow> name (tools ! i) = ?b \<and> name (tools ! j) = ?b @ ''_1''"
  proof (intro impI, elim conjE)
    assume ij: "i < j" and same: "operationId (tools ! i) = ?b"
      and others: "\<forall>k<j. k \<noteq> i \<longrightarrow> name (tools ! k) \<noteq> ?b \<and> name (tools ! k) \<noteq> ?b @ ''_1''"
    from ij j have i: "i < length tools" by simp
    have members: "x \<in> set (map name (take n tools)) \<Longrightarrow> n \<le> length tools
                     \<Longrightarrow> \<exists>k<n. x = name (tools ! k)" for x n
      by (force simp add: in_set_conv_nth)
    have "?b \<notin> set (map name (take i tools))"
    proof
      assume "?b \<in> set (map name (take i tools))"
      with members[of ?b i] i obtain k where kk: "k < i" "?b = name (tools ! k)" by auto
      with ij have "k < j" "k \<noteq> i" by auto
      with others have "name (tools ! k) \<noteq> ?b" by blast
      with kk(2) show False by simp
    qed
    then have ni: "name (tools ! i) = ?b"
      using allocated_nth[OF a i] same by (simp add: whileUsed_unused)
    have "tools ! i \<in> set (take j tools)"
      using ij j by (auto simp add: in_set_conv_nth intro!: exI[of _ i])
    then have "name (tools ! i) \<in> set ?used" by simp
    with ni have bin: "?b \<in> set ?used" by simp
    with taken obtain k where
      k: "1 \<le> k" "name (tools ! j) = ?b @ ''_'' @ decimal k"
         "\<forall>k'. 1 \<le> k' \<and> k' < k \<longrightarrow> ?b @ ''_'' @ decimal k' \<in> set ?used"
      by blast
    have "k = 1"
    proof (rule ccontr)
      assume "k \<noteq> 1"
      with k(1,3) have "?b @ ''_'' @ decimal 1 \<in> set ?used" by auto
      then have "?b @ ''_1'' \<in> set ?used" by (simp add: decimal_1)
      with members[of "?b @ ''_1''" j] j obtain k' where
        k': "k' < j" "?b @ ''_1'' = name (tools ! k')" by auto
      show False
      proof (cases "k' = i")
        case True
        with k'(2) ni show False by simp
      next
        case False
        with others k'(1) have "name (tools ! k') \<noteq> ?b @ ''_1''" by blast
        with k'(2) show False by simp
      qed
    qed
    with k(2) have "name (tools ! j) = ?b @ ''_1''" by (simp add: decimal_1)
    with ni show "name (tools ! i) = ?b \<and> name (tools ! j) = ?b @ ''_1''" by simp
  qed
  from unused taken pair show ?thesis by blast
qed

theorem collision_suffix_witness:
  "extractToolsFromApi (Suc 0) petsHeap petsDocument = Inr petsTools
   \<and> operationId (petsTools ! 0) = operationId (petsTools ! 1)
   \<and> name (petsTools ! 0) = ''list_pets''
   \<and> name (petsTools ! 1) = ''list_pets_1''"
proof -
  have "name (petsTools ! 0) = operationId (petsTools ! 1)
        \<and> name (petsTools ! 1) = operationId (petsTools ! 1) @ ''_1''"
    using collision_suffix[OF pets_run, of 1 0, THEN conjunct2, THEN conjunct2]
    by (simp add: petsTools_def)
  then show ?thesis using pets_run by (simp add: petsTools_def)
qed

section \<open>Operations and their tools\<close>

text \<open>The sanitised name, code unit by code unit.\<close>

lemma toLowerChar_upper: "c \<in> set asciiUpper \<Longrightarrow> toLowerChar c \<in> set asciiLower"
  by (auto simp add: toLowerChar_def char_tables)

lemma toLowerChar_other: "c \<notin> set asciiUpper \<Longrightarrow> toLowerChar c = c"
  by (simp add: toLowerChar_def char_tables)

lemma upper_not_sanitized: "c \<in> set asciiUpper \<Longrightarrow> c \<notin> set (asciiLower @ asciiDigits @ ''_-'')"
  by (auto simp add: char_tables)

lemma dot_not_sanitized: "CHR ''.'' \<notin> set (asciiLower @ asciiDigits @ ''_-'')"
  by (simp add: char_tables)

lemma sanitizedChar_range: "sanitizedChar c \<in> set (asciiLower @ asciiDigits @ ''_-'')"
  by (simp add: sanitizedChar_def)

lemma sanitize_char:
  "toLowerChar (if isNameChar (if c = CHR ''.'' then CHR ''_'' else c)
                then (if c = CHR ''.'' then CHR ''_'' else c) else CHR ''_'')
   = sanitizedChar c"
proof (cases "c = CHR ''.''")
  case True
  then show ?thesis
    by (simp add: sanitizedChar_def isNameChar_def toLowerChar_def char_tables)
next
  case notdot: False
  have us: "toLowerChar CHR ''_'' = CHR ''_''"
    by (simp add: toLowerChar_def char_tables)
  show ?thesis
  proof (cases "c \<in> set asciiUpper")
    case True
    with toLowerChar_upper[OF True] notdot show ?thesis
      by (simp add: sanitizedChar_def isNameChar_def)
  next
    case False
    with toLowerChar_other[OF False] notdot us show ?thesis
      by (auto simp add: sanitizedChar_def isNameChar_def)
  qed
qed

lemma sanitizeName_spec: "sanitizeName s = map sanitizedChar s"
  by (simp add: sanitizeName_def toLowerCase_def replaceOutside_def replaceDots_def
      sanitize_char comp_def)

lemma sanitized_differs:
  assumes "c \<in> set x" and "c = CHR ''.'' \<or> c \<in> set asciiUpper"
  shows "map sanitizedChar x \<noteq> x"
proof
  assume eq: "map sanitizedChar x = x"
  from assms(1) have "sanitizedChar c \<in> set (map sanitizedChar x)" by simp
  have "set (map sanitizedChar x) \<subseteq> set (asciiLower @ asciiDigits @ ''_-'')"
    using sanitizedChar_range by auto
  with eq assms(1) have "c \<in> set (asciiLower @ asciiDigits @ ''_-'')" by auto
  with assms(2) upper_not_sanitized[of c] dot_not_sanitized show False by auto
qed

text \<open>
  C6. The tools of a run correspond one to one, in order, to the declared operations, and
  the security requirements of each tool depend on its own operation and the document
  only: the operation's list if it declares one (so none for an explicitly empty list,
  whatever the document declares), and the document's global requirements if the
  operation has no \<open>security\<close> member (or \<open>null\<close>).
\<close>

theorem operation_security:
  assumes "extractToolsFromApi d h api = Inr tools"
  shows "length tools = length (declaredOperations api)
         \<and> (\<forall>i<length tools.
               case declaredOperations api ! i of
                 (path, m, op) \<Rightarrow>
                   pathTemplate (tools ! i) = path
                   \<and> httpMethod (tools ! i) = methodString m
                   \<and> securityRequirements (tools ! i) =
                       (case o_security op of
                          SecurityList l \<Rightarrow> l
                        | SecurityUndefined \<Rightarrow> globalSecurity api
                        | SecurityNull \<Rightarrow> globalSecurity api))"
proof -
  from assms have all:
    "list_all2 (producedFrom d h (globalSecurity api)) (declaredOperations api) tools"
    by (rule extractToolsFromApi_produces)
  then have len: "length tools = length (declaredOperations api)"
    by (simp add: list_all2_lengthD)
  have "case declaredOperations api ! i of
          (path, m, op) \<Rightarrow>
            pathTemplate (tools ! i) = path
            \<and> httpMethod (tools ! i) = methodString m
            \<and> securityRequirements (tools ! i) =
                (case o_security op of
                   SecurityList l \<Rightarrow> l
                 | SecurityUndefined \<Rightarrow> globalSecurity api
                 | SecurityNull \<Rightarrow> globalSecurity api)"
    if "i < length tools" for i
  proof -
    from that len have "i < length (declaredOperations api)" by simp
    from list_all2_nthD[OF all this]
    show ?thesis
      by (auto simp add: producedFrom_def operationSecurity_def
          split: prod.splits security_decl.splits)
  qed
  with len show ?thesis by blast
qed

theorem operation_security_witness:
  "extractToolsFromApi (Suc 0) petsHeap petsDocument = Inr petsTools
   \<and> declaredOperations petsDocument = [(''/pets'', GET, listPets), (''/pets'', POST, createPet)]
   \<and> o_security listPets = SecurityUndefined
   \<and> securityRequirements (petsTools ! 0) = [[(''apiKey'', [])]]
   \<and> o_security createPet = SecurityList []
   \<and> securityRequirements (petsTools ! 1) = []"
proof -
  have ops: "declaredOperations petsDocument
               = [(''/pets'', GET, listPets), (''/pets'', POST, createPet)]"
    by (simp add: declaredOperations_def operationsOfPaths_def operationsOfItem_def
        petsDocument_def HttpMethods_def)
  have g: "globalSecurity petsDocument = [[(''apiKey'', [])]]"
    by (simp add: globalSecurity_def petsDocument_def)
  have s: "o_security listPets = SecurityUndefined" "o_security createPet = SecurityList []"
    by (simp_all add: listPets_def createPet_def)
  have len: "length petsTools = 2" by (simp add: petsTools_def)
  from operation_security[OF pets_run, THEN conjunct2, rule_format, of 0]
  have a: "securityRequirements (petsTools ! 0) = [[(''apiKey'', [])]]"
    by (simp add: ops g s len)
  from operation_security[OF pets_run, THEN conjunct2, rule_format, of 1]
  have b: "securityRequirements (petsTools ! 1) = []"
    by (simp add: ops g s len)
  from pets_run ops s a b show ?thesis by simp
qed

text \<open>
  C10. The \<open>operationId\<close> member of a tool is the sanitised base name: the declared
  identifier (or, without one, the generated identifier) with every code unit lower-cased
  and with dots and code units outside \<open>[a-z0-9_-]\<close> replaced by underscores. It
  differs from a declared identifier that contains a dot or an upper-case letter, and
  the tool's name is this member, alone or followed by a collision suffix.
\<close>

theorem operationId_is_sanitized:
  assumes "extractToolsFromApi d h api = Inr tools" and "i < length tools"
  shows "i < length (declaredOperations api)
         \<and> (case declaredOperations api ! i of
               (path, m, op) \<Rightarrow>
                 operationId (tools ! i) = map sanitizedChar (rawBaseName m path op)
                 \<and> (\<forall>x. o_operationId op = Some x
                          \<and> (\<exists>c \<in> set x. c = CHR ''.'' \<or> c \<in> set asciiUpper)
                        \<longrightarrow> rawBaseName m path op = x \<and> operationId (tools ! i) \<noteq> x))
         \<and> set (operationId (tools ! i)) \<subseteq> set (asciiLower @ asciiDigits @ ''_-'')
         \<and> (name (tools ! i) = operationId (tools ! i)
              \<or> (\<exists>k\<ge>1. name (tools ! i) = operationId (tools ! i) @ ''_'' @ decimal k))"
proof -
  from assms(1) have all:
    "list_all2 (producedFrom d h (globalSecurity api)) (declaredOperations api) tools"
    and a: "allocated [] tools"
    by (rule extractToolsFromApi_produces)+
  from all assms(2) have i: "i < length (declaredOperations api)"
    by (simp add: list_all2_lengthD)
  obtain path m op where pmo: "declaredOperations api ! i = (path, m, op)"
    by (cases "declaredOperations api ! i")
  from list_all2_nthD[OF all i] pmo
  have oid: "operationId (tools ! i) = map sanitizedChar (rawBaseName m path op)"
    by (simp add: producedFrom_def sanitizeName_spec)
  have differs: "rawBaseName m path op = x \<and> operationId (tools ! i) \<noteq> x"
    if "o_operationId op = Some x" and "\<exists>c \<in> set x. c = CHR ''.'' \<or> c \<in> set asciiUpper" for x
  proof -
    from that(2) have "x \<noteq> []" by auto
    with that(1) have "rawBaseName m path op = x" by (simp add: rawBaseName_def)
    moreover from that(2) obtain c where "c \<in> set x" "c = CHR ''.'' \<or> c \<in> set asciiUpper"
      by blast
    then have "map sanitizedChar x \<noteq> x" by (rule sanitized_differs)
    ultimately show ?thesis using oid by simp
  qed
  have range: "set (operationId (tools ! i)) \<subseteq> set (asciiLower @ asciiDigits @ ''_-'')"
    unfolding oid using sanitizedChar_range by auto
  let ?b = "operationId (tools ! i)"
  let ?used = "map name (take i tools)"
  have nm: "name (tools ! i) = whileUsed ?b ?used 1 ?b"
    using allocated_nth[OF a assms(2)] by simp
  have form: "name (tools ! i) = ?b \<or> (\<exists>k\<ge>1. name (tools ! i) = ?b @ ''_'' @ decimal k)"
  proof (cases "?b \<in> set ?used")
    case True
    from whileUsed_least[OF True, of 1 ?b] nm show ?thesis by auto
  next
    case False
    with nm show ?thesis by (simp add: whileUsed_unused)
  qed
  have mid: "case declaredOperations api ! i of
               (path, m, op) \<Rightarrow>
                 operationId (tools ! i) = map sanitizedChar (rawBaseName m path op)
                 \<and> (\<forall>x. o_operationId op = Some x
                          \<and> (\<exists>c \<in> set x. c = CHR ''.'' \<or> c \<in> set asciiUpper)
                        \<longrightarrow> rawBaseName m path op = x \<and> operationId (tools ! i) \<noteq> x)"
    unfolding pmo prod.case using oid differs by blast
  from i mid range form show ?thesis by blast
qed

theorem operationId_is_sanitized_witness:
  "extractToolsFromApi (Suc 0) petsHeap petsDocument = Inr petsTools
   \<and> o_operationId listPets = Some ''List.Pets''
   \<and> operationId (petsTools ! 0) = ''list_pets''
   \<and> operationId (petsTools ! 0) \<noteq> ''List.Pets''
   \<and> name (petsTools ! 0) = operationId (petsTools ! 0)"
proof -
  have ops: "declaredOperations petsDocument
               = [(''/pets'', GET, listPets), (''/pets'', POST, createPet)]"
    by (simp add: declaredOperations_def operationsOfPaths_def operationsOfItem_def
        petsDocument_def HttpMethods_def)
  have len: "0 < length petsTools" by (simp add: petsTools_def)
  have oid: "o_operationId listPets = Some ''List.Pets''" by (simp add: listPets_def)
  have "CHR ''.'' \<in> set ''List.Pets''" by simp
  then have up: "\<exists>c \<in> set ''List.Pets''. c = CHR ''.'' \<or> c \<in> set asciiUpper" by blast
  from operationId_is_sanitized[OF pets_run len, THEN conjunct2, THEN conjunct1]
  have "\<forall>x. o_operationId listPets = Some x
              \<and> (\<exists>c \<in> set x. c = CHR ''.'' \<or> c \<in> set asciiUpper)
            \<longrightarrow> rawBaseName GET ''/pets'' listPets = x \<and> operationId (petsTools ! 0) \<noteq> x"
    unfolding ops nth_Cons_0 prod.case by blast
  with oid up have ne: "operationId (petsTools ! 0) \<noteq> ''List.Pets''" by blast
  have "operationId (petsTools ! 0) = ''list_pets''" "name (petsTools ! 0) = ''list_pets''"
    by (simp_all add: petsTools_def)
  with pets_run oid ne show ?thesis by simp
qed

section \<open>Parameters and properties\<close>

text \<open>
  The keys of \<open>properties\<close> after the loop over the parameters: the keys it had, and the
  names of the parameters that have a schema and a non-empty name other than
  \<open>__proto__\<close>.
\<close>

lemma processParameters_keys:
  assumes "processParameters d h ps (props, req) = Inr (props', req')"
  shows "fst ` set props' =
           fst ` set props
           \<union> p_name ` set (filter (\<lambda>p. p_name p \<noteq> [] \<and> p_name p \<noteq> ''__proto__''
                                        \<and> p_schema p \<noteq> None) ps)"
    and "distinct (map fst props) \<Longrightarrow> distinct (map fst props')"
  using assms
proof (induction ps arbitrary: props req)
  case Nil
  {
    case 1
    then show ?case by simp
  next
    case 2
    then show ?case by simp
  }
next
  case (Cons param rest)
  {
    case 1
    show ?case
    proof (cases "p_schema param")
      case None
      with 1 have "processParameters d h rest (props, req) = Inr (props', req')" by simp
      from Cons.IH(1)[OF this] None show ?thesis by simp
    next
      case (Some schema)
      show ?thesis
      proof (cases "p_name param = []")
        case True
        with 1 Some have "processParameters d h rest (props, req) = Inr (props', req')" by simp
        from Cons.IH(1)[OF this] True show ?thesis by simp
      next
        case False
        with 1 Some obtain paramSchema where
          r: "processParameters d h rest
               (assign (p_name param)
                  (describe (\<lambda>dsc. orElse (p_description param) dsc) paramSchema) props,
                if p_required param then req @ [p_name param] else req) = Inr (props', req')"
          by (auto split: sum.splits)
        show ?thesis
        proof (cases "p_name param = ''__proto__''")
          case True
          with Cons.IH(1)[OF r] show ?thesis by (simp add: assign_key_set)
        next
          case notproto: False
          with Cons.IH(1)[OF r] Some False show ?thesis
            by (simp add: assign_key_set Un_commute insert_commute)
        qed
      qed
    qed
  next
    case 2
    show ?case
    proof (cases "p_schema param")
      case None
      with 2 have "processParameters d h rest (props, req) = Inr (props', req')" by simp
      from Cons.IH(2)[OF 2(1) this] show ?thesis .
    next
      case (Some schema)
      show ?thesis
      proof (cases "p_name param = []")
        case True
        with 2 Some have "processParameters d h rest (props, req) = Inr (props', req')" by simp
        from Cons.IH(2)[OF 2(1) this] show ?thesis .
      next
        case False
        with 2 Some obtain paramSchema where
          r: "processParameters d h rest
               (assign (p_name param)
                  (describe (\<lambda>dsc. orElse (p_description param) dsc) paramSchema) props,
                if p_required param then req @ [p_name param] else req) = Inr (props', req')"
          by (auto split: sum.splits)
        from 2(1) have "distinct (map fst (assign (p_name param)
                  (describe (\<lambda>dsc. orElse (p_description param) dsc) paramSchema) props))"
          by (rule assign_distinct)
        from Cons.IH(2)[OF this r] show ?thesis .
      qed
    qed
  }
qed

text \<open>The input schema is built from these properties, with or without \<open>requestBody\<close>.\<close>

lemma generateInputSchemaAndDetails_shape:
  assumes "generateInputSchemaAndDetails d h op = Inr details"
  shows "\<exists>properties required rq.
           processParameters d h (case o_parameters op of Some ps \<Rightarrow> ps | None \<Rightarrow> []) ([], [])
             = Inr (properties, required)
           \<and> d_parameters details = (case o_parameters op of Some ps \<Rightarrow> ps | None \<Rightarrow> [])
           \<and> (d_inputSchema details = objectSchema properties rq
               \<or> (\<exists>v. d_inputSchema details
                          = objectSchema (assign ''requestBody'' v properties) rq))"
proof -
  let ?all = "case o_parameters op of Some ps \<Rightarrow> ps | None \<Rightarrow> []"
  from assms obtain properties required where
    pp: "processParameters d h ?all ([], []) = Inr (properties, required)"
    by (cases "processParameters d h ?all ([], [])")
       (auto simp add: generateInputSchemaAndDetails_def Let_def)
  show ?thesis
  proof (cases "o_requestBody op")
    case None
    with assms pp have "d_parameters details = ?all"
      "d_inputSchema details = objectSchema properties required"
      by (auto simp add: generateInputSchemaAndDetails_def Let_def)
    with pp show ?thesis by blast
  next
    case (Some body)
    show ?thesis
    proof (cases "requestBodyProperty d h body")
      case (Inl e)
      with assms pp Some show ?thesis
        by (simp add: generateInputSchemaAndDetails_def Let_def)
    next
      case (Inr r)
      show ?thesis
      proof (cases r)
        case None
        with assms pp Some Inr have "d_parameters details = ?all"
          "d_inputSchema details = objectSchema properties required"
          by (auto simp add: generateInputSchemaAndDetails_def Let_def)
        with pp show ?thesis by blast
      next
        case (Some vc)
        obtain v ct where vc: "vc = (v, ct)" by (cases vc)
        with assms pp \<open>o_requestBody op = Some body\<close> Inr Some
        have "d_parameters details = ?all"
          "d_inputSchema details
             = objectSchema (assign ''requestBody'' v properties)
                 (if rb_required body then required @ [''requestBody''] else required)"
          by (auto simp add: generateInputSchemaAndDetails_def Let_def)
        with pp show ?thesis by blast
      qed
    qed
  qed
qed

lemma generateInputSchemaAndDetails_properties:
  assumes "generateInputSchemaAndDetails d h op = Inr details"
  shows "d_parameters details = (case o_parameters op of Some ps \<Rightarrow> ps | None \<Rightarrow> [])
         \<and> (\<exists>props. j_properties (d_inputSchema details) = Some props
               \<and> distinct (map fst props)
               \<and> (\<forall>p \<in> set (d_parameters details).
                     p_name p \<noteq> [] \<and> p_name p \<noteq> ''__proto__'' \<and> p_schema p \<noteq> None
                     \<longrightarrow> p_name p \<in> fst ` set props)
               \<and> (\<forall>k \<in> fst ` set props.
                     k \<noteq> ''requestBody''
                     \<longrightarrow> k \<noteq> ''__proto__''
                         \<and> (\<exists>p \<in> set (d_parameters details). p_name p = k \<and> p_schema p \<noteq> None)))"
proof -
  let ?all = "case o_parameters op of Some ps \<Rightarrow> ps | None \<Rightarrow> []"
  let ?kept = "filter (\<lambda>p. p_name p \<noteq> [] \<and> p_name p \<noteq> ''__proto__'' \<and> p_schema p \<noteq> None) ?all"
  from generateInputSchemaAndDetails_shape[OF assms] obtain properties required rq where
    pp: "processParameters d h ?all ([], []) = Inr (properties, required)"
    and par: "d_parameters details = ?all"
    and sch: "d_inputSchema details = objectSchema properties rq
               \<or> (\<exists>v. d_inputSchema details
                          = objectSchema (assign ''requestBody'' v properties) rq)"
    by blast
  from processParameters_keys(1)[OF pp]
  have keys: "fst ` set properties = p_name ` set ?kept" by simp
  have dist: "distinct (map fst properties)"
    using processParameters_keys(2)[OF pp] by simp
  have covered: "p_name p \<in> fst ` set properties"
    if "p \<in> set (d_parameters details)"
       "p_name p \<noteq> [] \<and> p_name p \<noteq> ''__proto__'' \<and> p_schema p \<noteq> None" for p
  proof -
    from that par have "p \<in> set ?kept" by simp
    then have "p_name p \<in> p_name ` set ?kept" by (rule imageI)
    then show ?thesis by (simp only: keys)
  qed
  have srcs: "k \<noteq> ''__proto__''
              \<and> (\<exists>p \<in> set (d_parameters details). p_name p = k \<and> p_schema p \<noteq> None)"
    if "k \<in> fst ` set properties" for k
  proof -
    from that have "k \<in> p_name ` set ?kept" by (simp only: keys)
    then obtain q where q: "q \<in> set ?kept" "k = p_name q" by blast
    from q(1) have "q \<in> set ?all" "p_name q \<noteq> ''__proto__''" "p_schema q \<noteq> None" by simp_all
    with q(2) par show ?thesis by auto
  qed
  from sch have "\<exists>props. j_properties (d_inputSchema details) = Some props
               \<and> distinct (map fst props)
               \<and> (\<forall>p \<in> set (d_parameters details).
                     p_name p \<noteq> [] \<and> p_name p \<noteq> ''__proto__'' \<and> p_schema p \<noteq> None
                     \<longrightarrow> p_name p \<in> fst ` set props)
               \<and> (\<forall>k \<in> fst ` set props.
                     k \<noteq> ''requestBody''
                     \<longrightarrow> k \<noteq> ''__proto__''
                         \<and> (\<exists>p \<in> set (d_parameters details). p_name p = k \<and> p_schema p \<noteq> None))"
  proof
    assume "d_inputSchema details = objectSchema properties rq"
    then have p: "j_properties (d_inputSchema details) = Some properties"
      by (simp add: objectSchema_def)
    show ?thesis
    proof (intro exI[of _ properties] conjI ballI impI)
      show "j_properties (d_inputSchema details) = Some properties" by (rule p)
      show "distinct (map fst properties)" by (rule dist)
    next
      fix q assume "q \<in> set (d_parameters details)"
        "p_name q \<noteq> [] \<and> p_name q \<noteq> ''__proto__'' \<and> p_schema q \<noteq> None"
      then show "p_name q \<in> fst ` set properties" by (rule covered)
    next
      fix k assume "k \<in> fst ` set properties"
      from srcs[OF this] show "k \<noteq> ''__proto__''" by blast
    next
      fix k assume "k \<in> fst ` set properties"
      from srcs[OF this]
      show "\<exists>p \<in> set (d_parameters details). p_name p = k \<and> p_schema p \<noteq> None" by blast
    qed
  next
    assume "\<exists>v. d_inputSchema details = objectSchema (assign ''requestBody'' v properties) rq"
    then obtain v where
      "d_inputSchema details = objectSchema (assign ''requestBody'' v properties) rq"
      by blast
    then have p: "j_properties (d_inputSchema details)
                    = Some (assign ''requestBody'' v properties)"
      by (simp add: objectSchema_def)
    have k: "fst ` set (assign ''requestBody'' v properties)
               = insert ''requestBody'' (fst ` set properties)"
      by (simp add: assign_key_set)
    have other: "x \<in> fst ` set properties"
      if "x \<in> fst ` set (assign ''requestBody'' v properties)" "x \<noteq> ''requestBody''" for x
      using that by (simp only: k insert_iff) blast
    show ?thesis
    proof (intro exI[of _ "assign ''requestBody'' v properties"] conjI ballI impI)
      show "j_properties (d_inputSchema details) = Some (assign ''requestBody'' v properties)"
        by (rule p)
      show "distinct (map fst (assign ''requestBody'' v properties))"
        using dist by (rule assign_distinct)
    next
      fix q assume "q \<in> set (d_parameters details)"
        "p_name q \<noteq> [] \<and> p_name q \<noteq> ''__proto__'' \<and> p_schema q \<noteq> None"
      then have "p_name q \<in> fst ` set properties" by (rule covered)
      then show "p_name q \<in> fst ` set (assign ''requestBody'' v properties)"
        by (simp only: k insert_iff) blast
    next
      fix x assume "x \<in> fst ` set (assign ''requestBody'' v properties)" "x \<noteq> ''requestBody''"
      then have "x \<in> fst ` set properties" by (rule other)
      from srcs[OF this] show "x \<noteq> ''__proto__''" by blast
    next
      fix x assume "x \<in> fst ` set (assign ''requestBody'' v properties)" "x \<noteq> ''requestBody''"
      then have "x \<in> fst ` set properties" by (rule other)
      from srcs[OF this]
      show "\<exists>p \<in> set (d_parameters details). p_name p = x \<and> p_schema p \<noteq> None" by blast
    qed
  qed
  with par show ?thesis by blast
qed

text \<open>
  C8, as stated, fails: a parameter without a schema has an execution-parameter entry
  and no property, and so has a parameter named \<open>__proto__\<close>. In the example the first
  tool has the entries \<open>limit\<close> and \<open>filter\<close> and the one property \<open>limit\<close>; the
  operation whose one parameter is named \<open>__proto__\<close> gets an input schema without
  properties.
\<close>

theorem execution_parameters_counterexample:
  "map_sum id (map (\<lambda>t. (map fst (executionParameters t),
                           map_option (map fst) (j_properties (inputSchema t)))))
     (extractToolsFromApi (Suc 0) petsHeap petsDocument)
   = Inr [([''limit'', ''filter''], Some [''limit'']), ([], Some [''requestBody''])]
   \<and> ''filter'' \<notin> set [''limit'']
   \<and> map_sum id (\<lambda>details. (map p_name (d_parameters details),
                               map_option (map fst) (j_properties (d_inputSchema details))))
       (generateInputSchemaAndDetails (Suc 0) petsHeap
          \<lparr>o_operationId = None, o_description = None, o_summary = None,
            o_parameters = Some
              [\<lparr>p_name = ''__proto__'', p_in = ''query'', p_required = False,
                p_description = None, p_schema = Some 1\<rparr>],
            o_requestBody = None, o_security = SecurityUndefined\<rparr>)
     = Inr ([''__proto__''], Some [])"
proof -
  have a: "map_sum id (map (\<lambda>t. (map fst (executionParameters t),
                           map_option (map fst) (j_properties (inputSchema t)))))
     (extractToolsFromApi (Suc 0) petsHeap petsDocument)
   = Inr [([''limit'', ''filter''], Some [''limit'']), ([], Some [''requestBody''])]"
    by (simp add: pets_run petsTools_def listPets_def)
  have b: "map_sum id (\<lambda>details. (map p_name (d_parameters details),
                               map_option (map fst) (j_properties (d_inputSchema details))))
       (generateInputSchemaAndDetails (Suc 0) petsHeap
          \<lparr>o_operationId = None, o_description = None, o_summary = None,
            o_parameters = Some
              [\<lparr>p_name = ''__proto__'', p_in = ''query'', p_required = False,
                p_description = None, p_schema = Some 1\<rparr>],
            o_requestBody = None, o_security = SecurityUndefined\<rparr>)
     = Inr ([''__proto__''], Some [])"
    by (simp add: generateInputSchemaAndDetails_def petsHeap_def foldNullable_def
        objectSchema_def assign_proto)
  from a b show ?thesis by simp
qed

text \<open>
  C8, amended. The parameters of a tool are the parameters its operation declares, and
  its execution parameters are these, one entry (name, location) each. Every declared
  parameter with a schema and a non-empty name other than \<open>__proto__\<close> has a property of
  its name in the input schema, whose property names are distinct; and every property
  other than \<open>requestBody\<close> is named by a declared parameter with a schema, so it has an
  execution-parameter entry of its name.
\<close>

theorem execution_parameters_and_properties:
  assumes "extractToolsFromApi d h api = Inr tools" and "i < length tools"
  shows "i < length (declaredOperations api)
         \<and> (case declaredOperations api ! i of
               (path, m, op) \<Rightarrow>
                 parameters (tools ! i) = (case o_parameters op of Some ps \<Rightarrow> ps | None \<Rightarrow> []))
         \<and> executionParameters (tools ! i)
             = map (\<lambda>p. (p_name p, p_in p)) (parameters (tools ! i))
         \<and> (\<exists>props. j_properties (inputSchema (tools ! i)) = Some props
               \<and> distinct (map fst props)
               \<and> (\<forall>p \<in> set (parameters (tools ! i)).
                     p_name p \<noteq> [] \<and> p_name p \<noteq> ''__proto__'' \<and> p_schema p \<noteq> None
                     \<longrightarrow> p_name p \<in> fst ` set props)
               \<and> (\<forall>k \<in> fst ` set props.
                     k \<noteq> ''requestBody''
                     \<longrightarrow> (\<exists>p \<in> set (parameters (tools ! i)).
                            p_name p = k \<and> p_schema p \<noteq> None)
                         \<and> k \<in> fst ` set (executionParameters (tools ! i))))"
proof -
  let ?t = "tools ! i"
  from assms(1) have all:
    "list_all2 (producedFrom d h (globalSecurity api)) (declaredOperations api) tools"
    by (rule extractToolsFromApi_produces)
  with assms(2) have i: "i < length (declaredOperations api)" by (simp add: list_all2_lengthD)
  from list_all2_nthD[OF all i]
  have pf: "producedFrom d h (globalSecurity api) (declaredOperations api ! i) ?t" .
  obtain path m op where pmo: "declaredOperations api ! i = (path, m, op)"
    by (cases "declaredOperations api ! i")
  from pf have ex: "executionParameters ?t = map (\<lambda>p. (p_name p, p_in p)) (parameters ?t)"
    and gen: "generateInputSchemaAndDetails d h op
                = Inr \<lparr>d_inputSchema = inputSchema ?t, d_parameters = parameters ?t,
                       d_requestBodyContentType = requestBodyContentType ?t\<rparr>"
    unfolding pmo producedFrom_def prod.case by blast+
  note g = generateInputSchemaAndDetails_properties[OF gen, unfolded input_details.simps]
  from g have decl: "parameters ?t = (case o_parameters op of Some ps \<Rightarrow> ps | None \<Rightarrow> [])"
    by (rule conjunct1)
  from g[THEN conjunct2] obtain props where
    all_props: "j_properties (inputSchema ?t) = Some props
      \<and> distinct (map fst props)
      \<and> (\<forall>p \<in> set (parameters ?t).
          p_name p \<noteq> [] \<and> p_name p \<noteq> ''__proto__'' \<and> p_schema p \<noteq> None
          \<longrightarrow> p_name p \<in> fst ` set props)
      \<and> (\<forall>k \<in> fst ` set props.
          k \<noteq> ''requestBody''
          \<longrightarrow> k \<noteq> ''__proto__''
              \<and> (\<exists>p \<in> set (parameters ?t). p_name p = k \<and> p_schema p \<noteq> None))"
    ..
  note props = all_props[THEN conjunct1] all_props[THEN conjunct2, THEN conjunct1]
    all_props[THEN conjunct2, THEN conjunct2, THEN conjunct1]
    all_props[THEN conjunct2, THEN conjunct2, THEN conjunct2]
  have img: "fst ` set (executionParameters ?t) = p_name ` set (parameters ?t)"
    unfolding ex by (simp add: image_image)
  have mid: "case declaredOperations api ! i of
               (path, m, op) \<Rightarrow>
                 parameters ?t = (case o_parameters op of Some ps \<Rightarrow> ps | None \<Rightarrow> [])"
    unfolding pmo prod.case by (rule decl)
  have ex_props: "\<exists>props. j_properties (inputSchema ?t) = Some props
               \<and> distinct (map fst props)
               \<and> (\<forall>p \<in> set (parameters ?t).
                     p_name p \<noteq> [] \<and> p_name p \<noteq> ''__proto__'' \<and> p_schema p \<noteq> None
                     \<longrightarrow> p_name p \<in> fst ` set props)
               \<and> (\<forall>k \<in> fst ` set props.
                     k \<noteq> ''requestBody''
                     \<longrightarrow> (\<exists>p \<in> set (parameters ?t). p_name p = k \<and> p_schema p \<noteq> None)
                         \<and> k \<in> fst ` set (executionParameters ?t))"
  proof (intro exI[of _ props] conjI ballI impI)
    show "j_properties (inputSchema ?t) = Some props" by (rule props(1))
    show "distinct (map fst props)" by (rule props(2))
  next
    fix p assume p: "p \<in> set (parameters ?t)"
      "p_name p \<noteq> [] \<and> p_name p \<noteq> ''__proto__'' \<and> p_schema p \<noteq> None"
    from props(3)[rule_format, OF p] show "p_name p \<in> fst ` set props" .
  next
    fix k assume k: "k \<in> fst ` set props" "k \<noteq> ''requestBody''"
    from props(4)[rule_format, OF k]
    show "\<exists>p \<in> set (parameters ?t). p_name p = k \<and> p_schema p \<noteq> None"
      by (rule conjunct2)
  next
    fix k assume k: "k \<in> fst ` set props" "k \<noteq> ''requestBody''"
    from props(4)[rule_format, OF k]
    have "\<exists>p \<in> set (parameters ?t). p_name p = k \<and> p_schema p \<noteq> None"
      by (rule conjunct2)
    then obtain p where "p \<in> set (parameters ?t)" "k = p_name p" by (elim bexE conjE) simp
    then have "k \<in> p_name ` set (parameters ?t)" by (simp only: image_eqI)
    then show "k \<in> fst ` set (executionParameters ?t)" by (simp only: img)
  qed
  show ?thesis by (rule conjI[OF i conjI[OF mid conjI[OF ex ex_props]]])
qed

theorem execution_parameters_and_properties_witness:
  "extractToolsFromApi (Suc 0) petsHeap petsDocument = Inr petsTools
   \<and> declaredOperations petsDocument = [(''/pets'', GET, listPets), (''/pets'', POST, createPet)]
   \<and> o_parameters listPets = Some (parameters (petsTools ! 0))
   \<and> j_properties (inputSchema (petsTools ! 0))
       = Some [(''limit'', JObject (TString ''number'') None None None None [])]
   \<and> executionParameters (petsTools ! 0) = [(''limit'', ''query''), (''filter'', ''query'')]
   \<and> map p_schema (parameters (petsTools ! 0)) = [Some 0, None]"
proof -
  have ops: "declaredOperations petsDocument
               = [(''/pets'', GET, listPets), (''/pets'', POST, createPet)]"
    by (simp add: declaredOperations_def operationsOfPaths_def operationsOfItem_def
        petsDocument_def HttpMethods_def)
  have len: "0 < length petsTools" by (simp add: petsTools_def)
  note t = execution_parameters_and_properties[OF pets_run len]
  from t[THEN conjunct2, THEN conjunct1]
  have "case declaredOperations petsDocument ! 0 of
                 (path, m, op) \<Rightarrow>
                   parameters (petsTools ! 0)
                     = (case o_parameters op of Some ps \<Rightarrow> ps | None \<Rightarrow> [])" .
  then have a: "parameters (petsTools ! 0)
                  = (case o_parameters listPets of Some ps \<Rightarrow> ps | None \<Rightarrow> [])"
    unfolding ops nth_Cons_0 prod.case .
  have b: "o_parameters listPets = Some (parameters (petsTools ! 0))"
    unfolding a by (simp add: listPets_def)
  from t[THEN conjunct2, THEN conjunct2, THEN conjunct1]
  have "executionParameters (petsTools ! 0)
          = map (\<lambda>p. (p_name p, p_in p)) (parameters (petsTools ! 0))" .
  then have c: "executionParameters (petsTools ! 0)
                  = [(''limit'', ''query''), (''filter'', ''query'')]"
    by (simp add: petsTools_def listPets_def)
  have d: "j_properties (inputSchema (petsTools ! 0))
             = Some [(''limit'', JObject (TString ''number'') None None None None [])]"
    "map p_schema (parameters (petsTools ! 0)) = [Some 0, None]"
    by (simp_all add: petsTools_def listPets_def)
  from pets_run ops b c d show ?thesis by simp
qed

end
